theory Spec2Isabelle
  imports Complex_Main "HOL-Library.Log_Nat"
begin

section \<open>JavaScript numbers\<close>

text \<open>
  Every number of \<^verbatim>\<open>app.js\<close> is an IEEE 754 binary64 value. A finite one is a rational
  number; the type of numbers is \<open>real\<close>, and every arithmetic operator of the source is the exact
  operation followed by \<open>fl\<close>, rounding to the nearest binary64 value, ties to the even
  significand: 53 significant bits, and the fixed quantum \<open>2 powi - 1074\<close> below the normal
  range (gradual underflow). NaN and the infinities are not values of the model: the
  inputs are finite numbers, and for finite inputs no sum, product or difference computed
  by \<open>calculateReadiness\<close> overflows, except inside the comparator of the sort, where only
  the sign is used, and the sign of an overflowed difference is that of the exact one.

  \<open>expo x\<close> is the binary exponent of a positive \<open>x\<close>: \<open>2 powi expo x \<le> x < 2 powi (expo x + 1)\<close>.
\<close>

type_synonym number = real

definition expo :: "real \<Rightarrow> int" where
  "expo x = (if 1 \<le> x then bitlen \<lfloor>x\<rfloor> - 1 else - bitlen (\<lceil>1 / x\<rceil> - 1))"

text \<open>Rounding to the nearest integer, a tie going to the even neighbour.\<close>

definition rne :: "real \<Rightarrow> int" where
  "rne q = (let f = \<lfloor>q\<rfloor>; d = q - of_int f in
     if d < 1/2 then f else if 1/2 < d then f + 1 else if even f then f else f + 1)"

text \<open>The spacing of the binary64 values around \<open>x\<close>.\<close>

definition ulp :: "real \<Rightarrow> real" where
  "ulp x = 2 powi (max (expo \<bar>x\<bar> - 52) (- 1074))"

definition fl :: "real \<Rightarrow> number" where
  "fl x = (if x = 0 then 0 else of_int (rne (x / ulp x)) * ulp x)"

text \<open>
  The least positive binary64 value; every binary64 value is an integer multiple of it.
\<close>

definition quantum :: real where
  "quantum = 2 powi (- 1074)"

definition on_grid :: "real \<Rightarrow> bool" where
  "on_grid x = (of_int \<lfloor>x / quantum\<rfloor> * quantum = x)"

text \<open>The operators \<^verbatim>\<open>+\<close>, \<^verbatim>\<open>-\<close> and \<^verbatim>\<open>*\<close> of the source.\<close>

definition fadd :: "number \<Rightarrow> number \<Rightarrow> number" where
  "fadd x y = fl (x + y)"

definition fsub :: "number \<Rightarrow> number \<Rightarrow> number" where
  "fsub x y = fl (x - y)"

definition fmul :: "number \<Rightarrow> number \<Rightarrow> number" where
  "fmul x y = fl (x * y)"

text \<open>
  \<^verbatim>\<open>Math.round\<close> returns the integer nearest to its argument, the one closer to plus
  infinity when two are equally near: the floor of the exact \<open>x + 1/2\<close>.
\<close>

definition Math_round :: "number \<Rightarrow> number" where
  "Math_round x = of_int \<lfloor>x + 1 / 2\<rfloor>"

text \<open>\<^verbatim>\<open>const clamp = (value, min, max) => Math.max(min, Math.min(max, value))\<close>\<close>

definition clamp :: "number \<Rightarrow> number \<Rightarrow> number \<Rightarrow> number" where
  "clamp v mn mx = max mn (min mx v)"

section \<open>Data model and constants\<close>

record Inputs =
  processVolume :: number
  variance :: number
  exceptionRate :: number
  dataQuality :: number
  systemAccess :: number
  complianceSensitivity :: number

text \<open>
  The objects \<^verbatim>\<open>WEIGHTS\<close> and \<^verbatim>\<open>subscores\<close> have the same six keys. The keys
  \<^verbatim>\<open>dataQuality\<close> and \<^verbatim>\<open>systemAccess\<close> are also fields of the inputs, so here they carry
  the suffix \<open>_f\<close>.
\<close>

record Factors =
  stableProcess :: number
  lowExceptions :: number
  dataQuality_f :: number
  systemAccess_f :: number
  lowComplianceRisk :: number
  volumePotential :: number

text \<open>
  A decimal literal of the source denotes the binary64 value nearest to it: \<^verbatim>\<open>0.2\<close> is
  \<open>fl (2 / 10)\<close>, which is not \<open>1 / 5\<close>.
\<close>

definition WEIGHTS :: Factors where
  "WEIGHTS = \<lparr> stableProcess = fl (2 / 10),
               lowExceptions = fl (2 / 10),
               dataQuality_f = fl (2 / 10),
               systemAccess_f = fl (15 / 100),
               lowComplianceRisk = fl (15 / 100),
               volumePotential = fl (1 / 10) \<rparr>"

record BlockerHint =
  reason :: string
  hint :: string

record Blocker = BlockerHint +
  factor :: string
  gap :: number
  subscore :: number

record Output =
  readinessScore :: number
  band :: string
  topBlockers :: "Blocker list"
  narrative :: string

definition BLOCKER_HINTS :: "(string \<times> BlockerHint) list" where
  "BLOCKER_HINTS =
    [(''stableProcess'',
        \<lparr> reason = ''High Process Variance'',
          hint = ''Standardize steps, document SOPs, and reduce branching or edge cases.'' \<rparr>),
     (''lowExceptions'',
        \<lparr> reason = ''High Exception Rate'',
          hint = ''Perform root-cause analysis on exceptions, add decision tables, or redesign inputs.'' \<rparr>),
     (''dataQuality'',
        \<lparr> reason = ''Low Data Quality'',
          hint = ''Add validation, enrichment layers, define golden records, or implement MDM.'' \<rparr>),
     (''systemAccess'',
        \<lparr> reason = ''Low System Access'',
          hint = ''Expose APIs, create service accounts, remove MFA for service principals, or use RPA as a last resort.'' \<rparr>),
     (''lowComplianceRisk'',
        \<lparr> reason = ''High Compliance Sensitivity'',
          hint = ''Minimize data usage, pseudonymize PII, add Human-in-the-Loop (HITL) checks, and enhance audit logging.'' \<rparr>),
     (''volumePotential'',
        \<lparr> reason = ''Low Volume / Payoff'',
          hint = ''A pilot is still possible. Consider combining adjacent processes to reach scale.'' \<rparr>)]"

definition MIN_GAP_THRESHOLD :: number where
  "MIN_GAP_THRESHOLD = 15"

text \<open>
  Reading a property of \<^verbatim>\<open>undefined\<close> throws a TypeError: the only way
  \<^verbatim>\<open>calculateReadiness\<close> can throw on a record of numbers is a key of \<^verbatim>\<open>subscores\<close> missing
  from \<^verbatim>\<open>BLOCKER_HINTS\<close>.
\<close>

datatype error = TypeError

section \<open>Core calculation\<close>

text \<open>
  \<^verbatim>\<open>Math.log10\<close> is a function of the runtime, which the language standard leaves
  implementation-approximated. It is the parameter \<open>log10\<close> of the model.
\<close>

definition volumeSubscore :: "(number \<Rightarrow> number) \<Rightarrow> number \<Rightarrow> number" where
  "volumeSubscore log10 pv =
     (if pv \<le> 0 then 0
      else let v = log10 (fadd pv 1);
               scaled = fmul v (fl (315 / 10))
           in clamp scaled 0 95)"

text \<open>Lines 235 to 242: the object \<^verbatim>\<open>subscores\<close>.\<close>

definition subscoresOf :: "(number \<Rightarrow> number) \<Rightarrow> Inputs \<Rightarrow> Factors" where
  "subscoresOf log10 inputs =
     \<lparr> stableProcess = fsub 100 (variance inputs),
       lowExceptions = fsub 100 (exceptionRate inputs),
       dataQuality_f = dataQuality inputs,
       systemAccess_f = systemAccess inputs,
       lowComplianceRisk = fsub 100 (complianceSensitivity inputs),
       volumePotential = volumeSubscore log10 (processVolume inputs) \<rparr>"

text \<open>Lines 245 to 251: the weighted sum, each product rounded, added from left to right.\<close>

definition weightedScore :: "Factors \<Rightarrow> number" where
  "weightedScore s =
     fadd (fadd (fadd (fadd (fadd
       (fmul (stableProcess s) (stableProcess WEIGHTS))
       (fmul (lowExceptions s) (lowExceptions WEIGHTS)))
       (fmul (dataQuality_f s) (dataQuality_f WEIGHTS)))
       (fmul (systemAccess_f s) (systemAccess_f WEIGHTS)))
       (fmul (lowComplianceRisk s) (lowComplianceRisk WEIGHTS)))
       (fmul (volumePotential s) (volumePotential WEIGHTS))"

text \<open>Lines 256 to 268: the band and its narrative.\<close>

definition bandFor :: "number \<Rightarrow> string \<times> string" where
  "bandFor score =
     (if 75 \<le> score then
        (''Green'',
         ''This process is a strong candidate for automation. Proceed with detailed analysis.'')
      else if 50 \<le> score then
        (''Yellow'',
         ''This process shows potential but has clear blockers. Address top issues to improve readiness.'')
      else
        (''Red'',
         ''This process has significant blockers. Focus on fundamentals before automating.''))"

text \<open>\<^verbatim>\<open>Object.entries(subscores)\<close>: the pairs of key and value, in the order of the literal.\<close>

definition entries :: "Factors \<Rightarrow> (string \<times> number) list" where
  "entries s =
     [(''stableProcess'', stableProcess s),
      (''lowExceptions'', lowExceptions s),
      (''dataQuality'', dataQuality_f s),
      (''systemAccess'', systemAccess_f s),
      (''lowComplianceRisk'', lowComplianceRisk s),
      (''volumePotential'', volumePotential s)]"

text \<open>Lines 272 to 282: the callback of \<^verbatim>\<open>map\<close>.\<close>

fun mkBlocker :: "string \<times> number \<Rightarrow> error + Blocker" where
  "mkBlocker (key, sub) =
     (let maxScore = (if key = ''volumePotential'' then 95 else 100);
          g = fsub maxScore sub
      in case map_of BLOCKER_HINTS key of
           None \<Rightarrow> Inl TypeError
         | Some h \<Rightarrow> Inr \<lparr> reason = reason h, hint = hint h,
                          factor = key, gap = g, subscore = sub \<rparr>)"

text \<open>\<^verbatim>\<open>Array.prototype.map\<close> with a callback that may throw: the first throw ends the loop.\<close>

fun map_result :: "('a \<Rightarrow> error + 'b) \<Rightarrow> 'a list \<Rightarrow> error + 'b list" where
  "map_result f [] = Inr []"
| "map_result f (x # xs) =
     (case f x of
        Inl e \<Rightarrow> Inl e
      | Inr y \<Rightarrow> (case map_result f xs of Inl e \<Rightarrow> Inl e | Inr ys \<Rightarrow> Inr (y # ys)))"

text \<open>
  \<^verbatim>\<open>Array.prototype.sort\<close> with a comparator is a stable sort: \<open>x\<close> stays before \<open>y\<close> unless
  the comparator is positive on them. Insertion from the right end of the list does that.
\<close>

fun insert_by :: "('a \<Rightarrow> 'a \<Rightarrow> number) \<Rightarrow> 'a \<Rightarrow> 'a list \<Rightarrow> 'a list" where
  "insert_by cmp x [] = [x]"
| "insert_by cmp x (y # ys) =
     (if cmp x y \<le> 0 then x # y # ys else y # insert_by cmp x ys)"

definition Array_sort :: "('a \<Rightarrow> 'a \<Rightarrow> number) \<Rightarrow> 'a list \<Rightarrow> 'a list" where
  "Array_sort cmp xs = foldr (insert_by cmp) xs []"

text \<open>Lines 284 to 287: \<^verbatim>\<open>filter\<close>, \<^verbatim>\<open>sort((a, b) => b.gap - a.gap)\<close>, \<^verbatim>\<open>slice(0, 4)\<close>.\<close>

definition selectTop :: "Blocker list \<Rightarrow> Blocker list" where
  "selectTop allBlockers =
     take 4 (Array_sort (\<lambda>a b. fsub (gap b) (gap a))
       (filter (\<lambda>b. MIN_GAP_THRESHOLD < gap b) allBlockers))"

definition calculateReadiness :: "(number \<Rightarrow> number) \<Rightarrow> Inputs \<Rightarrow> error + Output" where
  "calculateReadiness log10 inputs =
     (let subscores = subscoresOf log10 inputs;
          score = weightedScore subscores;
          rs = Math_round score;
          (b, n) = bandFor rs
      in case map_result mkBlocker (entries subscores) of
           Inl e \<Rightarrow> Inl e
         | Inr allBlockers \<Rightarrow>
             Inr \<lparr> readinessScore = rs, band = b,
                   topBlockers = selectTop allBlockers, narrative = n \<rparr>)"

section \<open>The specification's wording\<close>

text \<open>The maximum of a factor's subscore: 95 for the volume, 100 for every other factor.\<close>

definition maxSubscore :: "string \<Rightarrow> number" where
  "maxSubscore key = (if key = ''volumePotential'' then 95 else 100)"

text \<open>
  The blocker ranking in the specification's words: for each of the six factors the gap
  is the maximum minus the subscore; the factors with a gap above 15 are kept, ordered by
  gap, largest first (factors with equal gaps in the order of the six factors), and cut to
  the first four. The result lists each factor with its gap.
\<close>

definition spec_ranking :: "Factors \<Rightarrow> (string \<times> number) list" where
  "spec_ranking s =
     take 4 (sort_key (\<lambda>p. - snd p)
       (filter (\<lambda>p. 15 < snd p)
         (map (\<lambda>(key, sub). (key, fsub (maxSubscore key) sub)) (entries s))))"

text \<open>
  The weights as the specification (and the source text) writes them: decimal fractions.
\<close>

definition WEIGHTS_decimal :: Factors where
  "WEIGHTS_decimal = \<lparr> stableProcess = 20 / 100,
               lowExceptions = 20 / 100,
               dataQuality_f = 20 / 100,
               systemAccess_f = 15 / 100,
               lowComplianceRisk = 15 / 100,
               volumePotential = 10 / 100 \<rparr>"

text \<open>
  The weighted sum in exact arithmetic with the decimal weights, and rounding to the
  nearest integer, halves up.
\<close>

definition exactScore :: "Factors \<Rightarrow> real" where
  "exactScore s =
     stableProcess s * stableProcess WEIGHTS_decimal
     + lowExceptions s * lowExceptions WEIGHTS_decimal
     + dataQuality_f s * dataQuality_f WEIGHTS_decimal
     + systemAccess_f s * systemAccess_f WEIGHTS_decimal
     + lowComplianceRisk s * lowComplianceRisk WEIGHTS_decimal
     + volumePotential s * volumePotential WEIGHTS_decimal"

definition round_half_up :: "real \<Rightarrow> int" where
  "round_half_up x = \<lfloor>x + 1 / 2\<rfloor>"

text \<open>
  The documented domain of the inputs: a volume that is not negative, the other five
  fields between 0 and 100.
\<close>

definition in_domain :: "Inputs \<Rightarrow> bool" where
  "in_domain i \<longleftrightarrow>
     0 \<le> processVolume i
     \<and> 0 \<le> variance i \<and> variance i \<le> 100
     \<and> 0 \<le> exceptionRate i \<and> exceptionRate i \<le> 100
     \<and> 0 \<le> dataQuality i \<and> dataQuality i \<le> 100
     \<and> 0 \<le> systemAccess i \<and> systemAccess i \<le> 100
     \<and> 0 \<le> complianceSensitivity i \<and> complianceSensitivity i \<le> 100"

text \<open>
  One record improves on another when every field is at least as favourable: volume, data
  quality and system access not smaller; variance, exception rate and compliance
  sensitivity not larger. Changing a single field in its favourable direction, the other
  five fixed, is the special case.
\<close>

definition improves :: "Inputs \<Rightarrow> Inputs \<Rightarrow> bool" where
  "improves a b \<longleftrightarrow>
     processVolume a \<le> processVolume b
     \<and> dataQuality a \<le> dataQuality b
     \<and> systemAccess a \<le> systemAccess b
     \<and> variance b \<le> variance a
     \<and> exceptionRate b \<le> exceptionRate a
     \<and> complianceSensitivity b \<le> complianceSensitivity a"

section \<open>Assumptions on the runtime's \<^verbatim>\<open>Math.log10\<close>\<close>

text \<open>
  Two properties of the logarithm that a runtime's \<^verbatim>\<open>Math.log10\<close> may be assumed to have
  on arguments from 1 upwards (the only ones \<open>volumeSubscore\<close> passes): it is monotone, and
  it is within 0.01 of the real logarithm. \<open>log10_2dp\<close>, the real logarithm cut to two
  decimals, has both; it stands for the runtime where a concrete function is needed.
\<close>

definition log10_monotone :: "(number \<Rightarrow> number) \<Rightarrow> bool" where
  "log10_monotone L \<longleftrightarrow> (\<forall>x y. 1 \<le> x \<and> x \<le> y \<longrightarrow> L x \<le> L y)"

definition log10_accurate :: "(number \<Rightarrow> number) \<Rightarrow> bool" where
  "log10_accurate L \<longleftrightarrow> (\<forall>x. 1 \<le> x \<longrightarrow> \<bar>L x - log 10 x\<bar> \<le> 1 / 100)"

definition log10_2dp :: "number \<Rightarrow> number" where
  "log10_2dp x = of_int \<lfloor>log 10 x * 100\<rfloor> / 100"

section \<open>Properties of the rounding\<close>

lemma expo_lower:
  assumes "0 < x"
  shows "2 powi expo x \<le> x"
proof (cases "1 \<le> x")
  case True
  define n where "n = \<lfloor>x\<rfloor>"
  have n: "0 < n" using True by (simp add: n_def)
  from bitlen_bounds[OF n] have b: "2 ^ nat (bitlen n - 1) \<le> n" by simp
  have bl: "1 \<le> bitlen n" using n by (simp add: bitlen_def floorlog_def)
  have "2 powi (bitlen n - 1) = (2::real) ^ nat (bitlen n - 1)"
    using bl by (simp add: power_int_nonneg_exp)
  also have "\<dots> = of_int (2 ^ nat (bitlen n - 1))" by simp
  also have "\<dots> \<le> of_int n" using b by (simp only: of_int_le_iff)
  also have "\<dots> \<le> x" by (simp add: n_def)
  finally show ?thesis using True by (simp add: expo_def n_def)
next
  case False
  define m where "m = \<lceil>1 / x\<rceil> - 1"
  have y: "1 < 1 / x" using False assms by simp
  then have m: "0 < m" unfolding m_def by linarith
  from bitlen_bounds[OF m] have b: "m < 2 ^ nat (bitlen m)" by simp
  have bl: "0 \<le> bitlen m" by (simp add: bitlen_nonneg)
  have "1 / x \<le> of_int (m + 1)" unfolding m_def by simp
  also have "\<dots> \<le> of_int (2 ^ nat (bitlen m))" using b by (simp only: of_int_le_iff)
  also have "\<dots> = (2::real) ^ nat (bitlen m)" by simp
  also have "\<dots> = 2 powi (bitlen m)" using bl by (simp add: power_int_nonneg_exp)
  finally have "1 / x \<le> 2 powi (bitlen m)" .
  then have "1 \<le> x * 2 powi (bitlen m)" using assms by (simp add: field_simps)
  then have "2 powi (- bitlen m) \<le> x"
    by (simp add: power_int_minus field_simps)
  then show ?thesis using False by (simp add: expo_def m_def)
qed

lemma expo_upper:
  assumes "0 < x"
  shows "x < 2 powi (expo x + 1)"
proof (cases "1 \<le> x")
  case True
  define n where "n = \<lfloor>x\<rfloor>"
  have n: "0 < n" using True by (simp add: n_def)
  from bitlen_bounds[OF n] have b: "n < 2 ^ nat (bitlen n)" by simp
  have bl: "0 \<le> bitlen n" by (simp add: bitlen_nonneg)
  have "x < of_int (n + 1)" unfolding n_def by linarith
  also have "\<dots> \<le> of_int (2 ^ nat (bitlen n))" using b by (simp only: of_int_le_iff)
  also have "\<dots> = (2::real) ^ nat (bitlen n)" by simp
  also have "\<dots> = 2 powi (bitlen n)" using bl by (simp add: power_int_nonneg_exp)
  finally show ?thesis using True by (simp add: expo_def n_def)
next
  case False
  define m where "m = \<lceil>1 / x\<rceil> - 1"
  have y: "1 < 1 / x" using False assms by simp
  then have m: "0 < m" unfolding m_def by linarith
  from bitlen_bounds[OF m] have b: "2 ^ nat (bitlen m - 1) \<le> m" by simp
  have bl: "1 \<le> bitlen m" using m by (simp add: bitlen_def floorlog_def)
  have "2 powi (bitlen m - 1) = (2::real) ^ nat (bitlen m - 1)"
    using bl by (simp add: power_int_nonneg_exp)
  also have "\<dots> = of_int (2 ^ nat (bitlen m - 1))" by simp
  also have "\<dots> \<le> of_int m" using b by (simp only: of_int_le_iff)
  also have "\<dots> < 1 / x" unfolding m_def by linarith
  finally have "2 powi (bitlen m - 1) < 1 / x" .
  then have "x * 2 powi (bitlen m - 1) < 1" using assms by (simp add: field_simps)
  moreover have p: "0 < (2::real) powi (bitlen m - 1)" by simp
  ultimately have "x < 1 / 2 powi (bitlen m - 1)" by (simp add: pos_less_divide_eq)
  also have "\<dots> = 2 powi (- (bitlen m - 1))" by (simp only: power_int_minus_divide)
  finally have "x < 2 powi (- bitlen m + 1)" by simp
  then show ?thesis using False by (simp add: expo_def m_def)
qed

lemma expo_mono:
  assumes "0 < x" "x \<le> y"
  shows "expo x \<le> expo y"
proof -
  have "2 powi expo x \<le> x" using expo_lower assms by simp
  also have "x \<le> y" by fact
  also have "y < 2 powi (expo y + 1)" using expo_upper assms by simp
  finally have lt: "(2::real) powi expo x < 2 powi (expo y + 1)" .
  show ?thesis
  proof (rule ccontr)
    assume "\<not> expo x \<le> expo y"
    then have "expo y + 1 \<le> expo x" by simp
    then have "(2::real) powi (expo y + 1) \<le> 2 powi expo x"
      by (intro power_int_increasing) simp_all
    with lt show False by simp
  qed
qed

lemma rne_of_int: "rne (of_int n) = n"
  by (simp add: rne_def)

lemma rne_cases: "rne q = \<lfloor>q\<rfloor> \<or> rne q = \<lfloor>q\<rfloor> + 1"
  by (simp add: rne_def Let_def)

lemma rne_error: "\<bar>of_int (rne q) - q\<bar> \<le> 1 / 2"
proof -
  have "of_int \<lfloor>q\<rfloor> \<le> q" "q < of_int \<lfloor>q\<rfloor> + 1" by linarith+
  then show ?thesis by (auto simp: rne_def Let_def abs_le_iff)
qed

lemma rne_mono:
  assumes "x \<le> y"
  shows "rne x \<le> rne y"
proof (cases "\<lfloor>x\<rfloor> = \<lfloor>y\<rfloor>")
  case True
  then show ?thesis using assms by (auto simp: rne_def Let_def)
next
  case False
  then have "\<lfloor>x\<rfloor> + 1 \<le> \<lfloor>y\<rfloor>" using floor_mono[OF assms] by simp
  moreover have "rne x \<le> \<lfloor>x\<rfloor> + 1" using rne_cases[of x] by auto
  moreover have "\<lfloor>y\<rfloor> \<le> rne y" using rne_cases[of y] by auto
  ultimately show ?thesis by simp
qed

lemma rne_minus: "rne (- q) = - rne q"
proof (cases "q \<in> \<int>")
  case True
  then obtain n where "q = of_int n" by (auto elim: Ints_cases)
  then show ?thesis using rne_of_int[of n] rne_of_int[of "- n"] by simp
next
  case False
  define f where "f = \<lfloor>q\<rfloor>"
  have "of_int f \<noteq> q" using False by (metis Ints_of_int)
  moreover have "of_int f \<le> q" "q < of_int f + 1" unfolding f_def by linarith+
  ultimately have lt: "of_int f < q" "q < of_int f + 1" by simp_all
  then have fm: "\<lfloor>- q\<rfloor> = - f - 1"
    by (intro floor_unique) simp_all
  have ev: "even (- f - 1) \<longleftrightarrow> odd f" by simp
  show ?thesis
    unfolding rne_def Let_def fm f_def[symmetric] ev
    by (auto simp: field_simps)
qed

lemma ulp_pos: "0 < ulp x"
  by (simp add: ulp_def)

lemma ulp_minus: "ulp (- x) = ulp x"
  by (simp add: ulp_def)

lemma fl_minus: "fl (- x) = - fl x"
  by (simp add: fl_def ulp_minus rne_minus)

lemma fl_zero: "fl 0 = 0"
  by (simp add: fl_def)

lemma fl_nonneg:
  assumes "0 \<le> x"
  shows "0 \<le> fl x"
proof -
  have "0 \<le> x / ulp x" using assms ulp_pos[of x] by simp
  then have "rne 0 \<le> rne (x / ulp x)" by (rule rne_mono)
  then have "0 \<le> rne (x / ulp x)" using rne_of_int[of 0] by simp
  then show ?thesis using ulp_pos[of x] by (simp add: fl_def)
qed

lemma fl_error: "\<bar>fl x - x\<bar> \<le> ulp x / 2"
proof (cases "x = 0")
  case True
  then show ?thesis using ulp_pos[of 0] by (simp add: fl_def)
next
  case False
  have "fl x - x = (of_int (rne (x / ulp x)) - x / ulp x) * ulp x"
    using False ulp_pos[of x] by (simp add: fl_def field_simps)
  then have "\<bar>fl x - x\<bar> = \<bar>of_int (rne (x / ulp x)) - x / ulp x\<bar> * ulp x"
    using ulp_pos[of x] by (simp add: abs_mult)
  also have "\<dots> \<le> (1 / 2) * ulp x"
    using rne_error[of "x / ulp x"] ulp_pos[of x] by (intro mult_right_mono) simp_all
  finally show ?thesis by simp
qed

lemma fl_pos_eq: "0 < x \<Longrightarrow> fl x = of_int (rne (x / ulp x)) * ulp x"
  by (simp add: fl_def)

lemma ulp_pos_eq: "0 < x \<Longrightarrow> ulp x = 2 powi (max (expo x - 52) (- 1074))"
  by (simp add: ulp_def)

lemma fl_ge_pow:
  assumes "0 < y" "- 1074 \<le> expo y - 52"
  shows "2 powi expo y \<le> fl y"
proof -
  have "max (expo y - 52) (- 1074) = expo y - 52" using assms(2) by (rule max_absorb1)
  then have u: "ulp y = 2 powi (expo y - 52)" by (simp only: ulp_pos_eq[OF assms(1)])
  have "(2::real) powi expo y = 2 powi (52 + (expo y - 52))" by simp
  also have "\<dots> = 2 powi 52 * 2 powi (expo y - 52)" by (subst power_int_add) simp_all
  finally have sp: "(2::real) powi expo y = 2 ^ 52 * ulp y" by (simp add: u)
  have "2 ^ 52 * ulp y \<le> y" using expo_lower[OF assms(1)] sp by simp
  then have "of_int (2 ^ 52) \<le> y / ulp y" using ulp_pos[of y] by (simp add: pos_le_divide_eq)
  then have "rne (of_int (2 ^ 52)) \<le> rne (y / ulp y)" by (rule rne_mono)
  then have "(2::int) ^ 52 \<le> rne (y / ulp y)" by (simp only: rne_of_int)
  then have "of_int ((2::int) ^ 52) \<le> (of_int (rne (y / ulp y)) :: real)" by (simp only: of_int_le_iff)
  then have "2 ^ 52 * ulp y \<le> of_int (rne (y / ulp y)) * ulp y"
    using ulp_pos[of y] by (intro mult_right_mono) simp_all
  then show ?thesis using assms(1) sp by (simp add: fl_pos_eq)
qed

lemma fl_le_pow:
  assumes "0 < x"
  shows "fl x \<le> 2 powi (expo x + 1)"
proof -
  define e where "e = max (expo x - 52) (- 1074)"
  define k where "k = expo x + 1 - e"
  have u: "ulp x = 2 powi e" using assms by (simp add: ulp_pos_eq e_def)
  have "(2::real) powi (expo x + 1) = 2 powi (k + e)" by (simp add: k_def)
  also have "\<dots> = 2 powi k * 2 powi e" by (subst power_int_add) simp_all
  finally have sp: "(2::real) powi (expo x + 1) = 2 powi k * ulp x" by (simp add: u)
  have "x < 2 powi k * ulp x" using expo_upper[OF assms] sp by simp
  then have q: "x / ulp x < 2 powi k" using ulp_pos[of x] by (simp add: pos_divide_less_eq)
  show ?thesis
  proof (cases "0 \<le> k")
    case True
    then have "(2::real) powi k = of_int (2 ^ nat k)" by (simp add: power_int_nonneg_exp)
    with q have "x / ulp x \<le> of_int (2 ^ nat k)" by simp
    then have "rne (x / ulp x) \<le> rne (of_int (2 ^ nat k))" by (rule rne_mono)
    then have "rne (x / ulp x) \<le> 2 ^ nat k" by (simp only: rne_of_int)
    then have "(of_int (rne (x / ulp x)) :: real) \<le> of_int (2 ^ nat k)" by (simp only: of_int_le_iff)
    also have "\<dots> = 2 powi k" using True by (simp add: power_int_nonneg_exp)
    finally have "of_int (rne (x / ulp x)) * ulp x \<le> 2 powi k * ulp x"
      using ulp_pos[of x] by (intro mult_right_mono) simp_all
    then show ?thesis using assms sp by (simp add: fl_pos_eq)
  next
    case False
    then have "k \<le> - 1" by simp
    then have "(2::real) powi k \<le> 2 powi (- 1)" by (intro power_int_increasing) simp_all
    moreover have "(2::real) powi (- 1) = 1 / 2" by (simp add: power_int_minus)
    ultimately have "x / ulp x \<le> 1 / 2" using q by linarith
    then have "rne (x / ulp x) \<le> rne (1 / 2)" by (rule rne_mono)
    moreover have "rne (1 / 2) = 0" by code_simp
    ultimately have "(of_int (rne (x / ulp x)) :: real) \<le> 0" by simp
    then have "of_int (rne (x / ulp x)) * ulp x \<le> 0"
      using ulp_pos[of x] by (simp add: mult_le_0_iff)
    also have "(0::real) \<le> 2 powi (expo x + 1)" by simp
    finally show ?thesis using assms by (simp add: fl_pos_eq)
  qed
qed

lemma fl_mono_pos:
  assumes "0 < x" "x \<le> y"
  shows "fl x \<le> fl y"
proof -
  have y: "0 < y" using assms by simp
  have ee: "expo x \<le> expo y" using expo_mono[OF assms] .
  show ?thesis
  proof (cases "ulp x = ulp y")
    case True
    have "x / ulp y \<le> y / ulp y" using assms ulp_pos[of y] by (simp add: divide_right_mono)
    then have "rne (x / ulp y) \<le> rne (y / ulp y)" by (rule rne_mono)
    then have "(of_int (rne (x / ulp y)) :: real) \<le> of_int (rne (y / ulp y))" by (simp only: of_int_le_iff)
    then have "of_int (rne (x / ulp y)) * ulp y \<le> of_int (rne (y / ulp y)) * ulp y"
      using ulp_pos[of y] by (intro mult_right_mono) simp_all
    then show ?thesis using assms y True by (simp add: fl_pos_eq)
  next
    case False
    then have ne: "max (expo x - 52) (- 1074) \<noteq> max (expo y - 52) (- 1074)"
      using assms y by (auto simp: ulp_pos_eq)
    with ee have big: "- 1074 \<le> expo y - 52" and lt: "expo x + 1 \<le> expo y"
      by (auto simp: max_def split: if_splits)
    have "fl x \<le> 2 powi (expo x + 1)" using fl_le_pow[OF assms(1)] .
    also have "\<dots> \<le> 2 powi expo y" using lt by (intro power_int_increasing) simp_all
    also have "\<dots> \<le> fl y" using fl_ge_pow[OF y big] .
    finally show ?thesis .
  qed
qed

lemma fl_mono:
  assumes "x \<le> y"
  shows "fl x \<le> fl y"
proof -
  consider "0 < x" | "x \<le> 0" "0 \<le> y" | "y < 0" by linarith
  then show ?thesis
  proof cases
    case 1
    then show ?thesis using fl_mono_pos assms by simp
  next
    case 2
    have "0 \<le> fl (- x)" using 2 by (intro fl_nonneg) simp
    then have "fl x \<le> 0" by (simp add: fl_minus)
    also have "0 \<le> fl y" using 2 by (intro fl_nonneg)
    finally show ?thesis .
  next
    case 3
    then have "fl (- y) \<le> fl (- x)" using assms by (intro fl_mono_pos) simp_all
    then show ?thesis by (simp add: fl_minus)
  qed
qed

lemma quantum_pos: "0 < quantum"
  by (simp add: quantum_def)

lemma on_gridI: "x = of_int k * quantum \<Longrightarrow> on_grid x"
  using quantum_pos by (simp add: on_grid_def)

lemma on_gridE:
  assumes "on_grid x"
  obtains k where "x = of_int k * quantum"
  using assms unfolding on_grid_def by metis

lemma ulp_grid: "\<exists>k. ulp x = of_int k * quantum"
proof -
  define e where "e = max (expo \<bar>x\<bar> - 52) (- 1074)"
  have "0 \<le> e + 1074" by (simp add: e_def)
  have "(2::real) powi e = 2 powi ((e + 1074) + (- 1074))" by simp
  also have "\<dots> = 2 powi (e + 1074) * 2 powi (- 1074)" by (subst power_int_add) simp_all
  also have "(2::real) powi (e + 1074) = of_int (2 ^ nat (e + 1074))"
    using \<open>0 \<le> e + 1074\<close> by (simp add: power_int_nonneg_exp)
  finally show ?thesis unfolding ulp_def e_def[symmetric] quantum_def by blast
qed

lemma fl_on_grid: "on_grid (fl x)"
proof (cases "x = 0")
  case True
  then show ?thesis by (simp add: fl_def on_grid_def)
next
  case False
  obtain k where k: "ulp x = of_int k * quantum" using ulp_grid by blast
  have "fl x = of_int (rne (x / ulp x) * k) * quantum"
    using False by (simp add: fl_def k)
  then show ?thesis by (rule on_gridI)
qed

lemma ulp_ge_quantum: "quantum \<le> ulp x"
  unfolding ulp_def quantum_def by (intro power_int_increasing) simp_all

lemma fl_ge_quantum:
  assumes "quantum \<le> x"
  shows "quantum \<le> fl x"
proof -
  have x: "0 < x" using assms quantum_pos by simp
  have "ulp x \<le> x"
  proof (cases "- 1074 \<le> expo x - 52")
    case True
    then have "max (expo x - 52) (- 1074) = expo x - 52" by (rule max_absorb1)
    then have "ulp x = 2 powi (expo x - 52)" by (simp only: ulp_pos_eq[OF x])
    also have "\<dots> \<le> 2 powi expo x" by (intro power_int_increasing) simp_all
    also have "\<dots> \<le> x" using expo_lower[OF x] .
    finally show ?thesis .
  next
    case False
    then have "max (expo x - 52) (- 1074) = - 1074" by (intro max_absorb2) simp
    then have "ulp x = quantum" by (simp only: ulp_pos_eq[OF x] quantum_def)
    then show ?thesis using assms by simp
  qed
  then have "of_int 1 \<le> x / ulp x" using ulp_pos[of x] by (simp add: pos_le_divide_eq)
  then have "rne (of_int 1) \<le> rne (x / ulp x)" by (rule rne_mono)
  then have "1 \<le> rne (x / ulp x)" by (simp only: rne_of_int)
  then have "(of_int 1 :: real) \<le> of_int (rne (x / ulp x))" by (simp only: of_int_le_iff)
  then have "1 * ulp x \<le> of_int (rne (x / ulp x)) * ulp x"
    using ulp_pos[of x] by (intro mult_right_mono) simp_all
  then have "ulp x \<le> fl x" using x by (simp add: fl_pos_eq)
  with ulp_ge_quantum[of x] show ?thesis by simp
qed

lemma fsub_sign:
  assumes "on_grid a" "on_grid b"
  shows "fsub b a \<le> 0 \<longleftrightarrow> b \<le> a"
proof
  assume le: "fsub b a \<le> 0"
  show "b \<le> a"
  proof (rule ccontr)
    assume "\<not> b \<le> a"
    then have lt: "a < b" by simp
    obtain k where k: "a = of_int k * quantum" using assms(1) by (rule on_gridE)
    obtain l where l: "b = of_int l * quantum" using assms(2) by (rule on_gridE)
    have "of_int k * quantum < of_int l * quantum" using lt k l by simp
    then have "(of_int k :: real) < of_int l" using quantum_pos by (simp add: mult_less_cancel_right)
    then have "k + 1 \<le> l" by simp
    then have "(of_int (k + 1) :: real) \<le> of_int l" by (simp only: of_int_le_iff)
    then have "of_int (k + 1) * quantum \<le> of_int l * quantum"
      using quantum_pos by (intro mult_right_mono) simp_all
    then have "quantum \<le> b - a" by (simp add: k l algebra_simps)
    then have "quantum \<le> fl (b - a)" by (rule fl_ge_quantum)
    with le quantum_pos show False by (simp add: fsub_def)
  qed
next
  assume "b \<le> a"
  then have "fl (b - a) \<le> fl 0" by (intro fl_mono) simp
  then show "fsub b a \<le> 0" by (simp add: fsub_def fl_zero)
qed

section \<open>The blocker list\<close>

lemma mkBlocker_Inr:
  assumes "map_of BLOCKER_HINTS key = Some h"
  shows "mkBlocker (key, sub) =
    Inr \<lparr> reason = reason h, hint = hint h, factor = key,
          gap = fsub (maxSubscore key) sub, subscore = sub \<rparr>"
  using assms by (simp add: maxSubscore_def Let_def)

lemma map_result_mkBlocker:
  assumes "fst ` set es \<subseteq> dom (map_of BLOCKER_HINTS)"
  shows "\<exists>bs. map_result mkBlocker es = Inr bs
     \<and> map (\<lambda>b. (factor b, subscore b)) bs = es
     \<and> (\<forall>b \<in> set bs. gap b = fsub (maxSubscore (factor b)) (subscore b)
           \<and> map_of BLOCKER_HINTS (factor b) = Some \<lparr> reason = reason b, hint = hint b \<rparr>)"
  using assms
proof (induction es)
  case Nil
  then show ?case by simp
next
  case (Cons e es)
  obtain key sub where e: "e = (key, sub)" by (cases e)
  from Cons.prems e obtain h where h: "map_of BLOCKER_HINTS key = Some h" by auto
  from Cons obtain bs where bs: "map_result mkBlocker es = Inr bs"
    "map (\<lambda>b. (factor b, subscore b)) bs = es"
    "\<forall>b \<in> set bs. gap b = fsub (maxSubscore (factor b)) (subscore b)
           \<and> map_of BLOCKER_HINTS (factor b) = Some \<lparr> reason = reason b, hint = hint b \<rparr>"
    by auto
  show ?case
    using bs h by (simp add: e mkBlocker_Inr[OF h] del: mkBlocker.simps)
qed

lemma entries_keys: "fst ` set (entries s) \<subseteq> dom (map_of BLOCKER_HINTS)"
  by (simp add: entries_def BLOCKER_HINTS_def)

lemma allBlockers_exist:
  "\<exists>bs. map_result mkBlocker (entries s) = Inr bs
     \<and> map (\<lambda>b. (factor b, subscore b)) bs = entries s
     \<and> (\<forall>b \<in> set bs. gap b = fsub (maxSubscore (factor b)) (subscore b)
           \<and> map_of BLOCKER_HINTS (factor b) = Some \<lparr> reason = reason b, hint = hint b \<rparr>)"
  using map_result_mkBlocker[OF entries_keys] .

lemma calculateReadiness_Inr:
  assumes "map_result mkBlocker (entries (subscoresOf log10 inputs)) = Inr bs"
  shows "calculateReadiness log10 inputs =
    Inr \<lparr> readinessScore = Math_round (weightedScore (subscoresOf log10 inputs)),
          band = fst (bandFor (Math_round (weightedScore (subscoresOf log10 inputs)))),
          topBlockers = selectTop bs,
          narrative = snd (bandFor (Math_round (weightedScore (subscoresOf log10 inputs)))) \<rparr>"
  using assms by (simp add: calculateReadiness_def Let_def split: prod.split)

lemma insert_by_insort:
  assumes "on_grid (gap x)" "\<forall>y \<in> set ys. on_grid (gap y)"
  shows "insert_by (\<lambda>a b. fsub (gap b) (gap a)) x ys = insort_key (\<lambda>b. - gap b) x ys"
  using assms by (induction ys) (simp_all add: fsub_sign)

lemma Array_sort_sort_key:
  assumes "\<forall>y \<in> set xs. on_grid (gap y)"
  shows "Array_sort (\<lambda>a b. fsub (gap b) (gap a)) xs = sort_key (\<lambda>b. - gap b) xs"
  using assms
proof (induction xs)
  case Nil
  then show ?case by (simp add: Array_sort_def)
next
  case (Cons x xs)
  then have ih: "foldr (insert_by (\<lambda>a b. fsub (gap b) (gap a))) xs [] = sort_key (\<lambda>b. - gap b) xs"
    by (simp add: Array_sort_def)
  have "\<forall>y \<in> set (sort_key (\<lambda>b. - gap b) xs). on_grid (gap y)" using Cons.prems by simp
  with Cons.prems show ?case
    by (simp add: Array_sort_def ih insert_by_insort sort_key_def[symmetric])
qed

lemma map_insort_key:
  "map f (insort_key (\<lambda>x. k (f x)) x ys) = insort_key k (f x) (map f ys)"
  by (induction ys) simp_all

lemma map_sort_key:
  "map f (sort_key (\<lambda>x. k (f x)) xs) = sort_key k (map f xs)"
  by (induction xs) (simp_all add: map_insort_key)

lemma selectTop_ranking:
  assumes "\<forall>b \<in> set bs. on_grid (gap b)"
  shows "map (\<lambda>b. (factor b, gap b)) (selectTop bs) =
    take 4 (sort_key (\<lambda>p. - snd p) (filter (\<lambda>p. 15 < snd p) (map (\<lambda>b. (factor b, gap b)) bs)))"
proof -
  let ?g = "\<lambda>b. (factor b, gap b)"
  let ?kept = "filter (\<lambda>b. MIN_GAP_THRESHOLD < gap b) bs"
  have "\<forall>b \<in> set ?kept. on_grid (gap b)" using assms by simp
  then have "selectTop bs = take 4 (sort_key (\<lambda>b. - gap b) ?kept)"
    by (simp add: selectTop_def Array_sort_sort_key)
  then have "map ?g (selectTop bs) = take 4 (map ?g (sort_key (\<lambda>b. - snd (?g b)) ?kept))"
    by (simp add: take_map)
  also have "map ?g (sort_key (\<lambda>b. - snd (?g b)) ?kept) = sort_key (\<lambda>p. - snd p) (map ?g ?kept)"
    by (rule map_sort_key)
  also have "map ?g ?kept = filter (\<lambda>p. 15 < snd p) (map ?g bs)"
    by (simp add: filter_map comp_def MIN_GAP_THRESHOLD_def)
  finally show ?thesis .
qed

section \<open>Evaluating the model on numerals\<close>

lemma bitlen_One: "bitlen 1 = 1"
  by (simp add: bitlen_alt_def)

lemma bitlen_Bit0: "bitlen (numeral (Num.Bit0 n)) = bitlen (numeral n) + 1"
  by (subst compute_bitlen) simp

lemma bitlen_Bit1: "bitlen (numeral (Num.Bit1 n)) = bitlen (numeral n) + 1"
  by (subst compute_bitlen) simp

lemmas fl_eval = fl_def ulp_def expo_def rne_def Let_def bitlen_One bitlen_Bit0 bitlen_Bit1
  fadd_def fsub_def fmul_def

lemma WEIGHTS_eval:
  "WEIGHTS = \<lparr> stableProcess = 3602879701896397 / 18014398509481984,
               lowExceptions = 3602879701896397 / 18014398509481984,
               dataQuality_f = 3602879701896397 / 18014398509481984,
               systemAccess_f = 5404319552844595 / 36028797018963968,
               lowComplianceRisk = 5404319552844595 / 36028797018963968,
               volumePotential = 3602879701896397 / 36028797018963968 \<rparr>"
  by (simp add: WEIGHTS_def fl_eval)

lemmas score_eval = weightedScore_def subscoresOf_def volumeSubscore_def clamp_def
  Math_round_def WEIGHTS_eval fl_eval

lemmas ranking_eval = spec_ranking_def entries_def subscoresOf_def volumeSubscore_def
  clamp_def maxSubscore_def sort_key_def fl_eval

section \<open>The output of \<open>calculateReadiness\<close>\<close>

lemma topBlockers_subset: "set (selectTop bs) \<subseteq> set bs"
proof -
  have ins: "set (insert_by cmp x ys) = insert x (set ys)" for cmp :: "Blocker \<Rightarrow> Blocker \<Rightarrow> number" and x ys
    by (induction ys) auto
  have "set (Array_sort cmp xs) = set xs" for cmp :: "Blocker \<Rightarrow> Blocker \<Rightarrow> number" and xs
    by (induction xs) (simp_all add: Array_sort_def ins)
  then have "set (selectTop bs) \<subseteq> set (filter (\<lambda>b. MIN_GAP_THRESHOLD < gap b) bs)"
    unfolding selectTop_def using set_take_subset by metis
  then show ?thesis by auto
qed

lemma allBlockers_on_grid:
  assumes "\<forall>b \<in> set bs. gap b = fsub (maxSubscore (factor b)) (subscore b) \<and> P b"
  shows "\<forall>b \<in> set bs. on_grid (gap b)"
  using assms by (simp add: fsub_def fl_on_grid)

lemma output_unique:
  assumes "calculateReadiness log10 inputs = Inr out" "calculateReadiness log10 inputs = Inr out'"
  shows "out' = out"
  using assms by simp

lemma output_score_band:
  "\<exists>out. calculateReadiness log10 inputs = Inr out
     \<and> readinessScore out = Math_round (weightedScore (subscoresOf log10 inputs))
     \<and> (band out, narrative out) = bandFor (readinessScore out)"
proof -
  obtain bs where "map_result mkBlocker (entries (subscoresOf log10 inputs)) = Inr bs"
    using allBlockers_exist[of "subscoresOf log10 inputs"] by blast
  from calculateReadiness_Inr[OF this] show ?thesis by simp
qed

lemma output_ranking:
  "\<exists>out. calculateReadiness log10 inputs = Inr out
     \<and> map (\<lambda>b. (factor b, gap b)) (topBlockers out) = spec_ranking (subscoresOf log10 inputs)"
proof -
  let ?s = "subscoresOf log10 inputs"
  let ?g = "\<lambda>b. (factor b, gap b)"
  obtain bs where bs: "map_result mkBlocker (entries ?s) = Inr bs"
    "map (\<lambda>b. (factor b, subscore b)) bs = entries ?s"
    "\<forall>b \<in> set bs. gap b = fsub (maxSubscore (factor b)) (subscore b)
           \<and> map_of BLOCKER_HINTS (factor b) = Some \<lparr> reason = reason b, hint = hint b \<rparr>"
    using allBlockers_exist[of ?s] by blast
  have grid: "\<forall>b \<in> set bs. on_grid (gap b)" using bs(3) by (rule allBlockers_on_grid)
  have "map ?g bs = map ((\<lambda>(key, sub). (key, fsub (maxSubscore key) sub)) \<circ> (\<lambda>b. (factor b, subscore b))) bs"
    using bs(3) by (intro map_cong) simp_all
  also have "\<dots> = map (\<lambda>(key, sub). (key, fsub (maxSubscore key) sub)) (entries ?s)"
    using bs(2) by (simp only: map_map[symmetric])
  finally have "map ?g (selectTop bs) = spec_ranking ?s"
    using selectTop_ranking[OF grid] by (simp add: spec_ranking_def)
  then show ?thesis using calculateReadiness_Inr[OF bs(1)] by simp
qed

lemma score_of_output:
  assumes "calculateReadiness log10 i = Inr out"
  shows "readinessScore out = Math_round (weightedScore (subscoresOf log10 i))"
  using assms output_score_band[of log10 i] by auto

lemma band_of_output:
  assumes "calculateReadiness log10 i = Inr out"
  shows "(band out, narrative out) = bandFor (readinessScore out)"
  using assms output_score_band[of log10 i] by auto

lemma ranking_of_output:
  assumes "calculateReadiness log10 i = Inr out"
  shows "map (\<lambda>b. (factor b, gap b)) (topBlockers out) = spec_ranking (subscoresOf log10 i)"
  using assms output_ranking[of log10 i] by auto

section \<open>Claims\<close>

text \<open>
  C1. For every input record the blocker list is the specification's ranking: over the
  six factors, the gap is 95 (volumePotential) or 100 (every other factor) minus the
  subscore; exactly the factors with a gap above 15 are kept, a gap of exactly 15 being
  left out; they are ordered by gap, largest first; the list is cut to its first four.
\<close>

theorem blockers_are_spec_ranking:
  "\<exists>out. calculateReadiness log10 inputs = Inr out
     \<and> map (\<lambda>b. (factor b, gap b)) (topBlockers out) = spec_ranking (subscoresOf log10 inputs)
     \<and> (\<forall>b \<in> set (topBlockers out). 15 < gap b)
     \<and> sorted_wrt (\<lambda>a b. gap b \<le> gap a) (topBlockers out)
     \<and> length (topBlockers out) \<le> 4"
proof -
  let ?s = "subscoresOf log10 inputs"
  let ?g = "\<lambda>b. (factor b, gap b)"
  obtain out where out: "calculateReadiness log10 inputs = Inr out"
    and rank: "map ?g (topBlockers out) = spec_ranking ?s"
    using output_ranking[of log10 inputs] by blast
  have kept: "\<forall>b \<in> set (topBlockers out). 15 < gap b"
  proof
    fix b assume "b \<in> set (topBlockers out)"
    then have "(factor b, gap b) \<in> set (map ?g (topBlockers out))" by force
    then have "(factor b, gap b) \<in> set (spec_ranking ?s)" by (simp only: rank)
    then have "(factor b, gap b) \<in> set (filter (\<lambda>p. 15 < snd p)
         (map (\<lambda>(key, sub). (key, fsub (maxSubscore key) sub)) (entries ?s)))"
      unfolding spec_ranking_def by (meson in_set_takeD set_sort[THEN equalityD1, THEN subsetD])
    then show "15 < gap b" by simp
  qed
  have "sorted (map (\<lambda>p. - snd p) (spec_ranking ?s))"
    unfolding spec_ranking_def by (simp add: take_map[symmetric] sorted_wrt_take)
  then have "sorted (map (\<lambda>b. - gap b) (topBlockers out))"
    by (simp add: rank[symmetric] comp_def)
  then have srt: "sorted_wrt (\<lambda>a b. gap b \<le> gap a) (topBlockers out)"
    by (simp add: sorted_wrt_map)
  have "length (map ?g (topBlockers out)) \<le> 4"
    unfolding rank spec_ranking_def by simp
  then have len: "length (topBlockers out) \<le> 4" by simp
  show ?thesis
    using out rank kept srt len by blast
qed

theorem blockers_are_spec_ranking_witness:
  "\<exists>out. calculateReadiness log10_2dp
       \<lparr> processVolume = 0, variance = 15, exceptionRate = 16, dataQuality = 85,
         systemAccess = 50, complianceSensitivity = 20 \<rparr> = Inr out
     \<and> map (\<lambda>b. (factor b, gap b)) (topBlockers out) =
         [(''volumePotential'', 95), (''systemAccess'', 50),
          (''lowComplianceRisk'', 20), (''lowExceptions'', 16)]
     \<and> (\<forall>b \<in> set (topBlockers out). 15 < gap b)"
proof -
  let ?w = "\<lparr> processVolume = 0, variance = 15, exceptionRate = 16, dataQuality = 85,
         systemAccess = 50, complianceSensitivity = 20 \<rparr>"
  have "spec_ranking (subscoresOf log10_2dp ?w) =
         [(''volumePotential'', 95), (''systemAccess'', 50),
          (''lowComplianceRisk'', 20), (''lowExceptions'', 16)]"
    by (simp add: ranking_eval)
  then show ?thesis
    using blockers_are_spec_ranking[of log10_2dp ?w] by auto
qed

text \<open>
  C10. Every blocker of the returned list is consistent: its factor is one of the six
  factor names, no factor occurs twice, its subscore is the subscore derived for that
  factor from the inputs, its gap is 95 (volumePotential) or 100 (otherwise) minus that
  subscore, and its reason and hint are the entries of the fixed table for that factor.
\<close>

theorem blockers_consistent:
  "\<exists>out. calculateReadiness log10 inputs = Inr out
     \<and> distinct (map factor (topBlockers out))
     \<and> (\<forall>b \<in> set (topBlockers out).
           factor b \<in> set [''stableProcess'', ''lowExceptions'', ''dataQuality'',
                            ''systemAccess'', ''lowComplianceRisk'', ''volumePotential'']
         \<and> (factor b, subscore b) \<in> set (entries (subscoresOf log10 inputs))
         \<and> gap b = fsub (if factor b = ''volumePotential'' then 95 else 100) (subscore b)
         \<and> map_of BLOCKER_HINTS (factor b) = Some \<lparr> reason = reason b, hint = hint b \<rparr>)"
proof -
  let ?s = "subscoresOf log10 inputs"
  obtain bs where bs: "map_result mkBlocker (entries ?s) = Inr bs"
    "map (\<lambda>b. (factor b, subscore b)) bs = entries ?s"
    "\<forall>b \<in> set bs. gap b = fsub (maxSubscore (factor b)) (subscore b)
           \<and> map_of BLOCKER_HINTS (factor b) = Some \<lparr> reason = reason b, hint = hint b \<rparr>"
    using allBlockers_exist[of ?s] by blast
  have grid: "\<forall>b \<in> set bs. on_grid (gap b)" using bs(3) by (rule allBlockers_on_grid)
  have "map fst (map (\<lambda>b. (factor b, subscore b)) bs) = map fst (entries ?s)"
    by (simp only: bs(2))
  then have fs: "map factor bs = [''stableProcess'', ''lowExceptions'', ''dataQuality'',
                            ''systemAccess'', ''lowComplianceRisk'', ''volumePotential'']"
    by (simp add: entries_def comp_def)
  then have dist: "distinct (map factor bs)" by simp
  let ?kept = "filter (\<lambda>b. MIN_GAP_THRESHOLD < gap b) bs"
  have "distinct (map factor ?kept)" using dist by (rule distinct_map_filter)
  then have "distinct (map factor (sort_key (\<lambda>b. - gap b) ?kept))"
    by (simp add: distinct_map)
  moreover have "selectTop bs = take 4 (sort_key (\<lambda>b. - gap b) ?kept)"
    using grid by (simp add: selectTop_def Array_sort_sort_key)
  ultimately have d: "distinct (map factor (selectTop bs))"
    by (simp only: take_map[symmetric] distinct_take)
  have each: "\<forall>b \<in> set (selectTop bs).
           factor b \<in> set [''stableProcess'', ''lowExceptions'', ''dataQuality'',
                            ''systemAccess'', ''lowComplianceRisk'', ''volumePotential'']
         \<and> (factor b, subscore b) \<in> set (entries ?s)
         \<and> gap b = fsub (if factor b = ''volumePotential'' then 95 else 100) (subscore b)
         \<and> map_of BLOCKER_HINTS (factor b) = Some \<lparr> reason = reason b, hint = hint b \<rparr>"
  proof
    fix b assume "b \<in> set (selectTop bs)"
    then have b: "b \<in> set bs" using topBlockers_subset by blast
    then have "factor b \<in> set (map factor bs)" by simp
    then have 1: "factor b \<in> set [''stableProcess'', ''lowExceptions'', ''dataQuality'',
                            ''systemAccess'', ''lowComplianceRisk'', ''volumePotential'']"
      by (simp only: fs)
    have "(factor b, subscore b) \<in> set (map (\<lambda>b. (factor b, subscore b)) bs)"
      using b by force
    then have 2: "(factor b, subscore b) \<in> set (entries ?s)" by (simp only: bs(2))
    show "factor b \<in> set [''stableProcess'', ''lowExceptions'', ''dataQuality'',
                            ''systemAccess'', ''lowComplianceRisk'', ''volumePotential'']
         \<and> (factor b, subscore b) \<in> set (entries ?s)
         \<and> gap b = fsub (if factor b = ''volumePotential'' then 95 else 100) (subscore b)
         \<and> map_of BLOCKER_HINTS (factor b) = Some \<lparr> reason = reason b, hint = hint b \<rparr>"
      using 1 2 bs(3) b by (simp add: maxSubscore_def)
  qed
  show ?thesis
    using calculateReadiness_Inr[OF bs(1)] d each by simp
qed

theorem blockers_consistent_witness:
  "\<exists>out. calculateReadiness log10_2dp
       \<lparr> processVolume = 0, variance = 90, exceptionRate = 10, dataQuality = 70,
         systemAccess = 60, complianceSensitivity = 30 \<rparr> = Inr out
     \<and> map factor (topBlockers out) =
         [''volumePotential'', ''stableProcess'', ''systemAccess'', ''dataQuality'']
     \<and> distinct (map factor (topBlockers out))
     \<and> (\<forall>b \<in> set (topBlockers out).
           gap b = fsub (if factor b = ''volumePotential'' then 95 else 100) (subscore b)
         \<and> map_of BLOCKER_HINTS (factor b) = Some \<lparr> reason = reason b, hint = hint b \<rparr>)"
proof -
  let ?w = "\<lparr> processVolume = 0, variance = 90, exceptionRate = 10, dataQuality = 70,
         systemAccess = 60, complianceSensitivity = 30 \<rparr>"
  obtain out where o: "calculateReadiness log10_2dp ?w = Inr out"
    and d: "distinct (map factor (topBlockers out))"
    and e: "\<forall>b \<in> set (topBlockers out).
           factor b \<in> set [''stableProcess'', ''lowExceptions'', ''dataQuality'',
                            ''systemAccess'', ''lowComplianceRisk'', ''volumePotential'']
         \<and> (factor b, subscore b) \<in> set (entries (subscoresOf log10_2dp ?w))
         \<and> gap b = fsub (if factor b = ''volumePotential'' then 95 else 100) (subscore b)
         \<and> map_of BLOCKER_HINTS (factor b) = Some \<lparr> reason = reason b, hint = hint b \<rparr>"
    using blockers_consistent[of log10_2dp ?w] by blast
  have "spec_ranking (subscoresOf log10_2dp ?w) =
      [(''volumePotential'', 95), (''stableProcess'', 90), (''systemAccess'', 40),
       (''dataQuality'', 30)]"
    by (simp add: ranking_eval)
  with ranking_of_output[OF o]
  have "map fst (map (\<lambda>b. (factor b, gap b)) (topBlockers out)) =
      [''volumePotential'', ''stableProcess'', ''systemAccess'', ''dataQuality'']"
    by simp
  then have f: "map factor (topBlockers out) =
      [''volumePotential'', ''stableProcess'', ''systemAccess'', ''dataQuality'']"
    by (simp add: comp_def)
  from e have e': "\<forall>b \<in> set (topBlockers out).
           gap b = fsub (if factor b = ''volumePotential'' then 95 else 100) (subscore b)
         \<and> map_of BLOCKER_HINTS (factor b) = Some \<lparr> reason = reason b, hint = hint b \<rparr>"
    by simp
  show ?thesis
    by (rule exI[of _ out]) (intro conjI o f d e')
qed

text \<open>
  C8. \<open>calculateReadiness\<close> returns an output for every record of numbers (no lookup in
  the hint table fails, so nothing is thrown), and the output is a function of the record:
  two calls on identical records return identical outputs.
\<close>

theorem calculateReadiness_total_deterministic:
  "(\<exists>out. calculateReadiness log10 inputs = Inr out)
   \<and> (inputs' = inputs \<longrightarrow> calculateReadiness log10 inputs' = calculateReadiness log10 inputs)"
  using output_score_band[of log10 inputs] by auto

theorem calculateReadiness_total_deterministic_witness:
  "\<exists>out. calculateReadiness log10_2dp
       \<lparr> processVolume = 0, variance = 20, exceptionRate = 10, dataQuality = 70,
         systemAccess = 60, complianceSensitivity = 30 \<rparr> = Inr out
     \<and> readinessScore out = 68"
proof -
  let ?w = "\<lparr> processVolume = 0, variance = 20, exceptionRate = 10, dataQuality = 70,
         systemAccess = 60, complianceSensitivity = 30 \<rparr>"
  obtain out where o: "calculateReadiness log10_2dp ?w = Inr out"
    using calculateReadiness_total_deterministic[of log10_2dp ?w ?w] by blast
  have "Math_round (weightedScore (subscoresOf log10_2dp ?w)) = 68"
    by (simp add: score_eval)
  with score_of_output[OF o] have "readinessScore out = 68" by simp
  with o show ?thesis by blast
qed

text \<open>
  C6. On the record with every field at its worst value the score is exactly 0, the band
  is Red, and the blocker list is not empty, has at most four entries and is ordered by
  gap, largest first.
\<close>

theorem worst_inputs:
  "\<exists>out. calculateReadiness log10
       \<lparr> processVolume = 0, variance = 100, exceptionRate = 100, dataQuality = 0,
         systemAccess = 0, complianceSensitivity = 100 \<rparr> = Inr out
     \<and> readinessScore out = 0
     \<and> band out = ''Red''
     \<and> topBlockers out \<noteq> []
     \<and> length (topBlockers out) \<le> 4
     \<and> sorted_wrt (\<lambda>a b. gap b \<le> gap a) (topBlockers out)
     \<and> map (\<lambda>b. (factor b, gap b)) (topBlockers out) =
         [(''stableProcess'', 100), (''lowExceptions'', 100),
          (''dataQuality'', 100), (''systemAccess'', 100)]"
proof -
  let ?w = "\<lparr> processVolume = 0, variance = 100, exceptionRate = 100, dataQuality = 0,
         systemAccess = 0, complianceSensitivity = 100 \<rparr>"
  obtain out where o: "calculateReadiness log10 ?w = Inr out"
    using output_score_band[of log10 ?w] by blast
  have "Math_round (weightedScore (subscoresOf log10 ?w)) = 0"
    by (simp add: score_eval)
  with score_of_output[OF o] have r: "readinessScore out = 0" by simp
  with band_of_output[OF o] have b: "band out = ''Red''"
    by (simp add: bandFor_def)
  have "spec_ranking (subscoresOf log10 ?w) =
      [(''stableProcess'', 100), (''lowExceptions'', 100),
          (''dataQuality'', 100), (''systemAccess'', 100)]"
    by (simp add: ranking_eval)
  with ranking_of_output[OF o]
  have m: "map (\<lambda>b. (factor b, gap b)) (topBlockers out) =
       [(''stableProcess'', 100), (''lowExceptions'', 100),
          (''dataQuality'', 100), (''systemAccess'', 100)]"
    by simp
  then have "map snd (map (\<lambda>b. (factor b, gap b)) (topBlockers out)) = [100, 100, 100, 100]"
    by simp
  then have g: "map gap (topBlockers out) = [100, 100, 100, 100]" by (simp add: comp_def)
  then have "sorted_wrt (\<lambda>x y. y \<le> x) (map gap (topBlockers out))" by simp
  then have s: "sorted_wrt (\<lambda>a b. gap b \<le> gap a) (topBlockers out)"
    by (simp only: sorted_wrt_map)
  from g have "length (map gap (topBlockers out)) = 4" by simp
  then have l: "length (topBlockers out) = 4" by simp
  then have "topBlockers out \<noteq> []" by auto
  with o r b m s l show ?thesis by simp
qed

text \<open>
  C4. The band is a function of the rounded score alone: a score of at least 75 gives
  Green, a score from 50 to 74 gives Yellow, a score of at most 49 gives Red, and the
  narrative is the one fixed text of that band. The score is an integer, so the three
  cases cover every score.
\<close>

theorem band_from_score:
  "\<exists>out. calculateReadiness log10 inputs = Inr out
     \<and> (band out, narrative out) = bandFor (readinessScore out)
     \<and> readinessScore out \<in> \<int>
     \<and> (75 \<le> readinessScore out \<longrightarrow>
           band out = ''Green'' \<and> narrative out =
             ''This process is a strong candidate for automation. Proceed with detailed analysis.'')
     \<and> (50 \<le> readinessScore out \<and> readinessScore out \<le> 74 \<longrightarrow>
           band out = ''Yellow'' \<and> narrative out =
             ''This process shows potential but has clear blockers. Address top issues to improve readiness.'')
     \<and> (readinessScore out \<le> 49 \<longrightarrow>
           band out = ''Red'' \<and> narrative out =
             ''This process has significant blockers. Focus on fundamentals before automating.'')"
proof -
  obtain bs where "map_result mkBlocker (entries (subscoresOf log10 inputs)) = Inr bs"
    using allBlockers_exist[of "subscoresOf log10 inputs"] by blast
  from calculateReadiness_Inr[OF this] show ?thesis
    by (simp add: bandFor_def Math_round_def)
qed

theorem band_from_score_witness:
  "(\<exists>out. calculateReadiness log10_2dp
       \<lparr> processVolume = 0, variance = 0, exceptionRate = 0, dataQuality = 100,
         systemAccess = 100, complianceSensitivity = 100 \<rparr> = Inr out
     \<and> readinessScore out = 75 \<and> band out = ''Green'')
   \<and> (\<exists>out. calculateReadiness log10_2dp
       \<lparr> processVolume = 0, variance = 0, exceptionRate = 0, dataQuality = 95,
         systemAccess = 100, complianceSensitivity = 100 \<rparr> = Inr out
     \<and> readinessScore out = 74 \<and> band out = ''Yellow'')
   \<and> (\<exists>out. calculateReadiness log10_2dp
       \<lparr> processVolume = 0, variance = 0, exceptionRate = 0, dataQuality = 50,
         systemAccess = 0, complianceSensitivity = 100 \<rparr> = Inr out
     \<and> readinessScore out = 50 \<and> band out = ''Yellow'')
   \<and> (\<exists>out. calculateReadiness log10_2dp
       \<lparr> processVolume = 0, variance = 0, exceptionRate = 0, dataQuality = 45,
         systemAccess = 0, complianceSensitivity = 100 \<rparr> = Inr out
     \<and> readinessScore out = 49 \<and> band out = ''Red'')"
proof -
  have w1: "\<exists>out. calculateReadiness log10_2dp
       \<lparr> processVolume = 0, variance = 0, exceptionRate = 0, dataQuality = 100,
         systemAccess = 100, complianceSensitivity = 100 \<rparr> = Inr out
     \<and> readinessScore out = 75 \<and> band out = ''Green''"
  proof -
    have s: "Math_round (weightedScore (subscoresOf log10_2dp
       \<lparr> processVolume = 0, variance = 0, exceptionRate = 0, dataQuality = 100,
         systemAccess = 100, complianceSensitivity = 100 \<rparr>)) = 75"
      by (simp add: score_eval)
    obtain out where o: "calculateReadiness log10_2dp
       \<lparr> processVolume = 0, variance = 0, exceptionRate = 0, dataQuality = 100,
         systemAccess = 100, complianceSensitivity = 100 \<rparr> = Inr out"
      and g: "75 \<le> readinessScore out \<longrightarrow> band out = ''Green''"
      and y: "50 \<le> readinessScore out \<and> readinessScore out \<le> 74 \<longrightarrow> band out = ''Yellow''"
      and r: "readinessScore out \<le> 49 \<longrightarrow> band out = ''Red''"
      using band_from_score[of log10_2dp
       "\<lparr> processVolume = 0, variance = 0, exceptionRate = 0, dataQuality = 100,
         systemAccess = 100, complianceSensitivity = 100 \<rparr>"]
      by blast
    have "readinessScore out = 75" using score_of_output[OF o] s by simp
    with o g y r show ?thesis by simp
  qed
  have w2: "\<exists>out. calculateReadiness log10_2dp
       \<lparr> processVolume = 0, variance = 0, exceptionRate = 0, dataQuality = 95,
         systemAccess = 100, complianceSensitivity = 100 \<rparr> = Inr out
     \<and> readinessScore out = 74 \<and> band out = ''Yellow''"
  proof -
    have s: "Math_round (weightedScore (subscoresOf log10_2dp
       \<lparr> processVolume = 0, variance = 0, exceptionRate = 0, dataQuality = 95,
         systemAccess = 100, complianceSensitivity = 100 \<rparr>)) = 74"
      by (simp add: score_eval)
    obtain out where o: "calculateReadiness log10_2dp
       \<lparr> processVolume = 0, variance = 0, exceptionRate = 0, dataQuality = 95,
         systemAccess = 100, complianceSensitivity = 100 \<rparr> = Inr out"
      and g: "75 \<le> readinessScore out \<longrightarrow> band out = ''Green''"
      and y: "50 \<le> readinessScore out \<and> readinessScore out \<le> 74 \<longrightarrow> band out = ''Yellow''"
      and r: "readinessScore out \<le> 49 \<longrightarrow> band out = ''Red''"
      using band_from_score[of log10_2dp
       "\<lparr> processVolume = 0, variance = 0, exceptionRate = 0, dataQuality = 95,
         systemAccess = 100, complianceSensitivity = 100 \<rparr>"]
      by blast
    have "readinessScore out = 74" using score_of_output[OF o] s by simp
    with o g y r show ?thesis by simp
  qed
  have w3: "\<exists>out. calculateReadiness log10_2dp
       \<lparr> processVolume = 0, variance = 0, exceptionRate = 0, dataQuality = 50,
         systemAccess = 0, complianceSensitivity = 100 \<rparr> = Inr out
     \<and> readinessScore out = 50 \<and> band out = ''Yellow''"
  proof -
    have s: "Math_round (weightedScore (subscoresOf log10_2dp
       \<lparr> processVolume = 0, variance = 0, exceptionRate = 0, dataQuality = 50,
         systemAccess = 0, complianceSensitivity = 100 \<rparr>)) = 50"
      by (simp add: score_eval)
    obtain out where o: "calculateReadiness log10_2dp
       \<lparr> processVolume = 0, variance = 0, exceptionRate = 0, dataQuality = 50,
         systemAccess = 0, complianceSensitivity = 100 \<rparr> = Inr out"
      and g: "75 \<le> readinessScore out \<longrightarrow> band out = ''Green''"
      and y: "50 \<le> readinessScore out \<and> readinessScore out \<le> 74 \<longrightarrow> band out = ''Yellow''"
      and r: "readinessScore out \<le> 49 \<longrightarrow> band out = ''Red''"
      using band_from_score[of log10_2dp
       "\<lparr> processVolume = 0, variance = 0, exceptionRate = 0, dataQuality = 50,
         systemAccess = 0, complianceSensitivity = 100 \<rparr>"]
      by blast
    have "readinessScore out = 50" using score_of_output[OF o] s by simp
    with o g y r show ?thesis by simp
  qed
  have w4: "\<exists>out. calculateReadiness log10_2dp
       \<lparr> processVolume = 0, variance = 0, exceptionRate = 0, dataQuality = 45,
         systemAccess = 0, complianceSensitivity = 100 \<rparr> = Inr out
     \<and> readinessScore out = 49 \<and> band out = ''Red''"
  proof -
    have s: "Math_round (weightedScore (subscoresOf log10_2dp
       \<lparr> processVolume = 0, variance = 0, exceptionRate = 0, dataQuality = 45,
         systemAccess = 0, complianceSensitivity = 100 \<rparr>)) = 49"
      by (simp add: score_eval)
    obtain out where o: "calculateReadiness log10_2dp
       \<lparr> processVolume = 0, variance = 0, exceptionRate = 0, dataQuality = 45,
         systemAccess = 0, complianceSensitivity = 100 \<rparr> = Inr out"
      and g: "75 \<le> readinessScore out \<longrightarrow> band out = ''Green''"
      and y: "50 \<le> readinessScore out \<and> readinessScore out \<le> 74 \<longrightarrow> band out = ''Yellow''"
      and r: "readinessScore out \<le> 49 \<longrightarrow> band out = ''Red''"
      using band_from_score[of log10_2dp
       "\<lparr> processVolume = 0, variance = 0, exceptionRate = 0, dataQuality = 45,
         systemAccess = 0, complianceSensitivity = 100 \<rparr>"]
      by blast
    have "readinessScore out = 49" using score_of_output[OF o] s by simp
    with o g y r show ?thesis by simp
  qed
  from w1 w2 w3 w4 show ?thesis by blast
qed

section \<open>Monotonicity\<close>

lemma fadd_mono: "a \<le> a' \<Longrightarrow> b \<le> b' \<Longrightarrow> fadd a b \<le> fadd a' b'"
  unfolding fadd_def by (intro fl_mono add_mono)

lemma fmul_mono: "a \<le> a' \<Longrightarrow> 0 \<le> w \<Longrightarrow> fmul a w \<le> fmul a' w"
  unfolding fmul_def by (intro fl_mono mult_right_mono)

lemma fsub_anti: "b' \<le> b \<Longrightarrow> fsub a b \<le> fsub a b'"
  unfolding fsub_def by (intro fl_mono diff_left_mono)

lemma Math_round_mono: "x \<le> y \<Longrightarrow> Math_round x \<le> Math_round y"
  unfolding Math_round_def by (simp add: floor_mono)

lemma clamp_mono: "x \<le> y \<Longrightarrow> clamp x lo hi \<le> clamp y lo hi"
  unfolding clamp_def by (auto simp: max_def min_def)

lemma clamp_range: "lo \<le> hi \<Longrightarrow> lo \<le> clamp x lo hi \<and> clamp x lo hi \<le> hi"
  unfolding clamp_def by (auto simp: max_def min_def)

lemma volumeSubscore_range: "0 \<le> volumeSubscore log10 pv \<and> volumeSubscore log10 pv \<le> 95"
  using clamp_range[of 0 95] by (simp add: volumeSubscore_def Let_def)

lemma fl_one: "fl 1 = 1"
  by (simp add: fl_eval)

lemma fadd_one_ge:
  assumes "0 \<le> pv"
  shows "1 \<le> fadd pv 1"
proof -
  have "fl 1 \<le> fl (pv + 1)" using assms by (intro fl_mono) simp
  then show ?thesis by (simp add: fadd_def fl_one)
qed

lemma volumeSubscore_mono:
  assumes "log10_monotone log10" "pv \<le> pv'"
  shows "volumeSubscore log10 pv \<le> volumeSubscore log10 pv'"
proof (cases "pv \<le> 0")
  case True
  then show ?thesis using volumeSubscore_range[of log10 pv'] by (simp add: volumeSubscore_def)
next
  case False
  then have p: "0 < pv" "0 < pv'" using assms(2) by simp_all
  have w: "0 \<le> fl (315 / 10)" by (intro fl_nonneg) simp
  have "1 \<le> fadd pv 1" using p by (intro fadd_one_ge) simp
  moreover have "fadd pv 1 \<le> fadd pv' 1" using assms(2) by (intro fadd_mono) simp_all
  ultimately have "log10 (fadd pv 1) \<le> log10 (fadd pv' 1)"
    using assms(1) by (simp add: log10_monotone_def)
  then have "fmul (log10 (fadd pv 1)) (fl (315 / 10)) \<le> fmul (log10 (fadd pv' 1)) (fl (315 / 10))"
    using w by (rule fmul_mono)
  then have "clamp (fmul (log10 (fadd pv 1)) (fl (315 / 10))) 0 95
      \<le> clamp (fmul (log10 (fadd pv' 1)) (fl (315 / 10))) 0 95"
    by (rule clamp_mono)
  then show ?thesis using p by (simp add: volumeSubscore_def Let_def)
qed

lemma weightedScore_mono:
  assumes "stableProcess s \<le> stableProcess s'" "lowExceptions s \<le> lowExceptions s'"
    "dataQuality_f s \<le> dataQuality_f s'" "systemAccess_f s \<le> systemAccess_f s'"
    "lowComplianceRisk s \<le> lowComplianceRisk s'" "volumePotential s \<le> volumePotential s'"
  shows "weightedScore s \<le> weightedScore s'"
  unfolding weightedScore_def
  using assms by (intro fadd_mono fmul_mono) (simp_all add: WEIGHTS_eval)

lemma subscoresOf_mono:
  assumes "log10_monotone log10" "improves a b"
  shows "weightedScore (subscoresOf log10 a) \<le> weightedScore (subscoresOf log10 b)"
  using assms
  by (intro weightedScore_mono) (simp_all add: subscoresOf_def improves_def fsub_anti volumeSubscore_mono)

lemma log10_2dp_monotone: "log10_monotone log10_2dp"
proof -
  have "log10_2dp x \<le> log10_2dp y" if "1 \<le> x" "x \<le> y" for x y
  proof -
    have "log 10 x \<le> log 10 y" using that by simp
    then have "\<lfloor>log 10 x * 100\<rfloor> \<le> \<lfloor>log 10 y * 100\<rfloor>" by (intro floor_mono) simp
    then show ?thesis by (simp add: log10_2dp_def divide_right_mono)
  qed
  then show ?thesis by (simp add: log10_monotone_def)
qed

lemma log10_2dp_accurate: "log10_accurate log10_2dp"
proof -
  have "\<bar>log10_2dp x - log 10 x\<bar> \<le> 1 / 100" for x
  proof -
    have "of_int \<lfloor>log 10 x * 100\<rfloor> \<le> log 10 x * 100"
      "log 10 x * 100 < of_int \<lfloor>log 10 x * 100\<rfloor> + 1" by linarith+
    then show ?thesis by (simp add: log10_2dp_def abs_le_iff field_simps)
  qed
  then show ?thesis by (simp add: log10_accurate_def)
qed

section \<open>The volume subscore\<close>

lemma log10_ge:
  assumes "10 ^ n \<le> x"
  shows "real n \<le> log 10 x"
proof -
  have "log 10 (10 ^ n) \<le> log 10 x" using assms by (intro log_mono) simp_all
  then show ?thesis by simp
qed

lemma log10_101_le: "log 10 101 \<le> 101 / 50"
proof -
  have "(101::real) ^ 50 \<le> 10 ^ 101" by simp
  also have "(10::real) ^ 101 = (10 powr (101 / 50)) ^ 50"
    by (simp add: powr_power)
  finally have le: "(101::real) ^ 50 \<le> (10 powr (101 / 50)) ^ 50" .
  have "(101::real) \<le> 10 powr (101 / 50)"
  proof (rule ccontr)
    assume "\<not> (101::real) \<le> 10 powr (101 / 50)"
    then have "10 powr (101 / 50) < (101::real)" by simp
    then have "(10 powr (101 / 50)) ^ 50 < (101::real) ^ 50"
      by (intro power_strict_mono) simp_all
    with le show False by linarith
  qed
  then have "log 10 101 \<le> log 10 (10 powr (101 / 50))" by (intro log_mono) simp_all
  then show ?thesis by simp
qed

lemma volumeSubscore_pos:
  assumes "0 < pv"
  shows "volumeSubscore log10 pv = clamp (fmul (log10 (fadd pv 1)) (63 / 2)) 0 95"
  using assms by (simp add: volumeSubscore_def Let_def fl_eval)

lemma volumeSubscore_100:
  assumes "log10_accurate log10"
  shows "\<bar>volumeSubscore log10 100 - 63\<bar> \<le> 1"
proof -
  have a: "fadd 100 1 = 101" by (simp add: fl_eval)
  have "\<bar>log10 101 - log 10 101\<bar> \<le> 1 / 100"
    using assms by (simp add: log10_accurate_def)
  moreover have "2 \<le> log 10 101" using log10_ge[of 2 101] by simp
  ultimately have b: "199 / 100 \<le> log10 101" "log10 101 \<le> 203 / 100"
    using log10_101_le by linarith+
  have "fl 62 \<le> fl (log10 101 * (63 / 2))" using b(1) by (intro fl_mono) simp
  moreover have "fl (log10 101 * (63 / 2)) \<le> fl 64" using b(2) by (intro fl_mono) simp
  moreover have "fl 62 = 62" "fl 64 = 64" by (simp_all add: fl_eval)
  ultimately have "62 \<le> fmul (log10 101) (63 / 2)" "fmul (log10 101) (63 / 2) \<le> 64"
    by (simp_all add: fmul_def)
  then show ?thesis
    by (simp add: volumeSubscore_pos a clamp_def abs_le_iff max_def min_def)
qed

lemma volumeSubscore_1000:
  assumes "log10_accurate log10"
  shows "\<bar>volumeSubscore log10 1000 - 945 / 10\<bar> \<le> 1"
proof -
  have a: "fadd 1000 1 = 1001" by (simp add: fl_eval)
  have "\<bar>log10 1001 - log 10 1001\<bar> \<le> 1 / 100"
    using assms by (simp add: log10_accurate_def)
  moreover have "3 \<le> log 10 1001" using log10_ge[of 3 1001] by simp
  ultimately have b: "299 / 100 \<le> log10 1001" by linarith
  have "fl 94 \<le> fl (log10 1001 * (63 / 2))" using b by (intro fl_mono) simp
  moreover have "fl 94 = 94" by (simp add: fl_eval)
  ultimately have "94 \<le> fmul (log10 1001) (63 / 2)" by (simp add: fmul_def)
  then show ?thesis
    by (simp add: volumeSubscore_pos a clamp_def abs_le_iff max_def min_def)
qed

lemma volumeSubscore_saturates:
  assumes "log10_accurate log10" "10000 \<le> pv"
  shows "volumeSubscore log10 pv = 95"
proof -
  have "fl 10001 \<le> fl (pv + 1)" using assms(2) by (intro fl_mono) simp
  moreover have "fl 10001 = 10001" by (simp add: fl_eval)
  ultimately have x: "10001 \<le> fadd pv 1" by (simp add: fadd_def)
  then have "\<bar>log10 (fadd pv 1) - log 10 (fadd pv 1)\<bar> \<le> 1 / 100"
    using assms(1) by (simp add: log10_accurate_def)
  moreover have "4 \<le> log 10 (fadd pv 1)" using log10_ge[of 4 "fadd pv 1"] x by simp
  ultimately have b: "399 / 100 \<le> log10 (fadd pv 1)" by linarith
  have "fl 95 \<le> fl (log10 (fadd pv 1) * (63 / 2))" using b by (intro fl_mono) simp
  moreover have "fl 95 = 95" by (simp add: fl_eval)
  ultimately have "95 \<le> fmul (log10 (fadd pv 1)) (63 / 2)" by (simp add: fmul_def)
  then show ?thesis
    using assms(2) by (simp add: volumeSubscore_pos clamp_def max_def min_def)
qed

text \<open>
  C3. A volume of at most 0 has subscore 0; a positive volume has subscore
  \<^verbatim>\<open>clamp(Math.log10(volume + 1) * 31.5, 0, 95)\<close>, the operators being those of the source
  (binary64). When \<^verbatim>\<open>Math.log10\<close> is within 0.01 of the logarithm, a volume of 100 gives 63
  within 1, a volume of 1000 gives 94.5 within 1, and every volume from 10000 upwards
  gives exactly 95.
\<close>

theorem volume_transform:
  assumes "log10_accurate log10"
  shows "(\<forall>pv. pv \<le> 0 \<longrightarrow> volumeSubscore log10 pv = 0)
     \<and> (\<forall>pv. 0 < pv \<longrightarrow>
           volumeSubscore log10 pv = clamp (fmul (log10 (fadd pv 1)) (315 / 10)) 0 95)
     \<and> \<bar>volumeSubscore log10 100 - 63\<bar> \<le> 1
     \<and> \<bar>volumeSubscore log10 1000 - 945 / 10\<bar> \<le> 1
     \<and> (\<forall>pv. 10000 \<le> pv \<longrightarrow> volumeSubscore log10 pv = 95)"
  using volumeSubscore_100[OF assms] volumeSubscore_1000[OF assms]
    volumeSubscore_saturates[OF assms]
  by (simp add: volumeSubscore_pos) (simp add: volumeSubscore_def)

theorem volume_transform_witness:
  "log10_accurate log10_2dp
     \<and> volumeSubscore log10_2dp 0 = 0
     \<and> \<bar>volumeSubscore log10_2dp 100 - 63\<bar> \<le> 1
     \<and> \<bar>volumeSubscore log10_2dp 1000 - 945 / 10\<bar> \<le> 1
     \<and> volumeSubscore log10_2dp 10000 = 95
     \<and> volumeSubscore log10_2dp 1000000 = 95"
proof -
  have t: "(\<forall>pv. pv \<le> 0 \<longrightarrow> volumeSubscore log10_2dp pv = 0)
     \<and> (\<forall>pv. 0 < pv \<longrightarrow>
           volumeSubscore log10_2dp pv = clamp (fmul (log10_2dp (fadd pv 1)) (315 / 10)) 0 95)
     \<and> \<bar>volumeSubscore log10_2dp 100 - 63\<bar> \<le> 1
     \<and> \<bar>volumeSubscore log10_2dp 1000 - 945 / 10\<bar> \<le> 1
     \<and> (\<forall>pv. 10000 \<le> pv \<longrightarrow> volumeSubscore log10_2dp pv = 95)"
    using volume_transform[OF log10_2dp_accurate] .
  from t have "volumeSubscore log10_2dp 0 = 0" by blast
  moreover from t have "\<bar>volumeSubscore log10_2dp 100 - 63\<bar> \<le> 1"
    "\<bar>volumeSubscore log10_2dp 1000 - 945 / 10\<bar> \<le> 1" by blast+
  moreover from t have s: "\<forall>pv. 10000 \<le> pv \<longrightarrow> volumeSubscore log10_2dp pv = 95" by blast
  have "volumeSubscore log10_2dp 10000 = 95" "volumeSubscore log10_2dp 1000000 = 95"
    using s by simp_all
  ultimately show ?thesis using log10_2dp_accurate by blast
qed

text \<open>
  C5. With variance, exception rate and compliance sensitivity 0, data quality and system
  access 100, and a volume whose subscore reaches the cap of 95, the score is exactly 100,
  the band is Green and the blocker list is empty.
\<close>

theorem best_inputs:
  assumes "variance inputs = 0" "exceptionRate inputs = 0" "dataQuality inputs = 100"
    "systemAccess inputs = 100" "complianceSensitivity inputs = 0"
    "volumeSubscore log10 (processVolume inputs) = 95"
  shows "calculateReadiness log10 inputs =
    Inr \<lparr> readinessScore = 100, band = ''Green'', topBlockers = [],
          narrative = ''This process is a strong candidate for automation. Proceed with detailed analysis.'' \<rparr>"
proof -
  have s: "subscoresOf log10 inputs =
      \<lparr> stableProcess = 100, lowExceptions = 100, dataQuality_f = 100,
        systemAccess_f = 100, lowComplianceRisk = 100, volumePotential = 95 \<rparr>"
    using assms by (simp add: subscoresOf_def fl_eval)
  obtain out where o: "calculateReadiness log10 inputs = Inr out"
    using output_score_band[of log10 inputs] by blast
  have "Math_round (weightedScore (subscoresOf log10 inputs)) = 100"
    unfolding s by (simp add: weightedScore_def Math_round_def WEIGHTS_eval fl_eval)
  with score_of_output[OF o] have r: "readinessScore out = 100" by simp
  with band_of_output[OF o] have b: "band out = ''Green''"
    "narrative out = ''This process is a strong candidate for automation. Proceed with detailed analysis.''"
    by (simp_all add: bandFor_def)
  have "spec_ranking (subscoresOf log10 inputs) = []"
    unfolding s by (simp add: spec_ranking_def entries_def maxSubscore_def fl_eval)
  with ranking_of_output[OF o] have t: "topBlockers out = []" by simp
  from r b t have "out = \<lparr> readinessScore = 100, band = ''Green'', topBlockers = [],
          narrative = ''This process is a strong candidate for automation. Proceed with detailed analysis.'' \<rparr>"
    by (cases out) simp
  with o show ?thesis by simp
qed

theorem best_inputs_witness:
  "volumeSubscore log10_2dp 10000 = 95
   \<and> calculateReadiness log10_2dp
       \<lparr> processVolume = 10000, variance = 0, exceptionRate = 0, dataQuality = 100,
         systemAccess = 100, complianceSensitivity = 0 \<rparr> =
    Inr \<lparr> readinessScore = 100, band = ''Green'', topBlockers = [],
          narrative = ''This process is a strong candidate for automation. Proceed with detailed analysis.'' \<rparr>"
proof -
  have v: "volumeSubscore log10_2dp 10000 = 95"
    using volumeSubscore_saturates[OF log10_2dp_accurate, of 10000] by simp
  then show ?thesis
    using best_inputs[of "\<lparr> processVolume = 10000, variance = 0, exceptionRate = 0,
         dataQuality = 100, systemAccess = 100, complianceSensitivity = 0 \<rparr>" log10_2dp]
    by simp
qed

text \<open>
  C7. The six weights are written as decimal fractions that sum to exactly 1. The
  constants the aggregation step uses are the binary64 values nearest to them; these sum
  to \<open>1 + 1 / 2 ^ 55\<close> in exact arithmetic, and to \<open>1 + 1 / 2 ^ 52\<close> (printed
  1.0000000000000002) when added from left to right in binary64 arithmetic.
\<close>

theorem weights_sum:
  "stableProcess WEIGHTS_decimal + lowExceptions WEIGHTS_decimal + dataQuality_f WEIGHTS_decimal
     + systemAccess_f WEIGHTS_decimal + lowComplianceRisk WEIGHTS_decimal
     + volumePotential WEIGHTS_decimal = 1
   \<and> WEIGHTS = \<lparr> stableProcess = fl (stableProcess WEIGHTS_decimal),
               lowExceptions = fl (lowExceptions WEIGHTS_decimal),
               dataQuality_f = fl (dataQuality_f WEIGHTS_decimal),
               systemAccess_f = fl (systemAccess_f WEIGHTS_decimal),
               lowComplianceRisk = fl (lowComplianceRisk WEIGHTS_decimal),
               volumePotential = fl (volumePotential WEIGHTS_decimal) \<rparr>
   \<and> stableProcess WEIGHTS + lowExceptions WEIGHTS + dataQuality_f WEIGHTS
     + systemAccess_f WEIGHTS + lowComplianceRisk WEIGHTS + volumePotential WEIGHTS
     = 1 + 1 / 2 ^ 55
   \<and> fadd (fadd (fadd (fadd (fadd (stableProcess WEIGHTS) (lowExceptions WEIGHTS))
       (dataQuality_f WEIGHTS)) (systemAccess_f WEIGHTS)) (lowComplianceRisk WEIGHTS))
       (volumePotential WEIGHTS) = 1 + 1 / 2 ^ 52"
proof -
  have "WEIGHTS = \<lparr> stableProcess = fl (stableProcess WEIGHTS_decimal),
               lowExceptions = fl (lowExceptions WEIGHTS_decimal),
               dataQuality_f = fl (dataQuality_f WEIGHTS_decimal),
               systemAccess_f = fl (systemAccess_f WEIGHTS_decimal),
               lowComplianceRisk = fl (lowComplianceRisk WEIGHTS_decimal),
               volumePotential = fl (volumePotential WEIGHTS_decimal) \<rparr>"
    by (simp add: WEIGHTS_def WEIGHTS_decimal_def)
  moreover have "fadd (fadd (fadd (fadd (fadd (stableProcess WEIGHTS) (lowExceptions WEIGHTS))
       (dataQuality_f WEIGHTS)) (systemAccess_f WEIGHTS)) (lowComplianceRisk WEIGHTS))
       (volumePotential WEIGHTS) = 1 + 1 / 2 ^ 52"
    by (simp add: WEIGHTS_eval fl_eval)
  ultimately show ?thesis
    by (simp add: WEIGHTS_decimal_def WEIGHTS_eval)
qed

theorem weights_sum_counterexample:
  "stableProcess WEIGHTS + lowExceptions WEIGHTS + dataQuality_f WEIGHTS
     + systemAccess_f WEIGHTS + lowComplianceRisk WEIGHTS + volumePotential WEIGHTS \<noteq> 1"
  by (simp add: WEIGHTS_eval)

text \<open>
  C9. Improving an input in its favourable direction never decreases the readiness
  score: if one record improves on another (in particular when a single field changes
  and the other five are fixed), its score is at least as large. The volume enters
  through \<^verbatim>\<open>Math.log10\<close>, which is assumed monotone on arguments from 1 upwards.
\<close>

theorem score_monotone:
  assumes "log10_monotone log10" "improves a b"
  shows "\<exists>out out'. calculateReadiness log10 a = Inr out
     \<and> calculateReadiness log10 b = Inr out'
     \<and> readinessScore out \<le> readinessScore out'"
proof -
  obtain out where o: "calculateReadiness log10 a = Inr out"
    using output_score_band[of log10 a] by blast
  obtain out' where o': "calculateReadiness log10 b = Inr out'"
    using output_score_band[of log10 b] by blast
  have "Math_round (weightedScore (subscoresOf log10 a))
      \<le> Math_round (weightedScore (subscoresOf log10 b))"
    using subscoresOf_mono[OF assms] by (rule Math_round_mono)
  then have "readinessScore out \<le> readinessScore out'"
    by (simp only: score_of_output[OF o] score_of_output[OF o'])
  with o o' show ?thesis by blast
qed

theorem score_monotone_witness:
  "log10_monotone log10_2dp
   \<and> improves
       \<lparr> processVolume = 9, variance = 40, exceptionRate = 30, dataQuality = 60,
         systemAccess = 50, complianceSensitivity = 40 \<rparr>
       \<lparr> processVolume = 99, variance = 40, exceptionRate = 30, dataQuality = 60,
         systemAccess = 50, complianceSensitivity = 40 \<rparr>
   \<and> (\<exists>out out'. calculateReadiness log10_2dp
       \<lparr> processVolume = 9, variance = 40, exceptionRate = 30, dataQuality = 60,
         systemAccess = 50, complianceSensitivity = 40 \<rparr> = Inr out
     \<and> calculateReadiness log10_2dp
       \<lparr> processVolume = 99, variance = 40, exceptionRate = 30, dataQuality = 60,
         systemAccess = 50, complianceSensitivity = 40 \<rparr> = Inr out'
     \<and> readinessScore out \<le> readinessScore out'
     \<and> readinessScore out = 58 \<and> readinessScore out' = 61)"
proof -
  let ?a = "\<lparr> processVolume = 9, variance = 40, exceptionRate = 30, dataQuality = 60,
         systemAccess = 50, complianceSensitivity = 40 \<rparr>"
  let ?b = "\<lparr> processVolume = 99, variance = 40, exceptionRate = 30, dataQuality = 60,
         systemAccess = 50, complianceSensitivity = 40 \<rparr>"
  have i: "improves ?a ?b" by (simp add: improves_def)
  obtain out out' where o: "calculateReadiness log10_2dp ?a = Inr out"
    and o': "calculateReadiness log10_2dp ?b = Inr out'"
    and le: "readinessScore out \<le> readinessScore out'"
    using score_monotone[OF log10_2dp_monotone i] by blast
  have "log 10 ((10::real) ^ 2) = real 2" by (intro log_pow_cancel) simp_all
  then have "log 10 (100::real) = 2" by simp
  then have l: "log10_2dp 10 = 1" "log10_2dp 100 = 2" by (simp_all add: log10_2dp_def)
  have f: "fadd 9 1 = 10" "fadd 99 1 = 100" "fmul 1 (63 / 2) = 63 / 2" "fmul 2 (63 / 2) = 63"
    by (simp_all add: fl_eval)
  have v: "volumeSubscore log10_2dp 9 = 63 / 2" "volumeSubscore log10_2dp 99 = 63"
    by (simp_all add: volumeSubscore_pos f l clamp_def)
  have "Math_round (weightedScore (subscoresOf log10_2dp ?a)) = 58"
    by (simp add: weightedScore_def subscoresOf_def v Math_round_def WEIGHTS_eval fl_eval)
  then have s: "readinessScore out = 58" by (simp only: score_of_output[OF o])
  have "Math_round (weightedScore (subscoresOf log10_2dp ?b)) = 61"
    by (simp add: weightedScore_def subscoresOf_def v Math_round_def WEIGHTS_eval fl_eval)
  then have s': "readinessScore out' = 61" by (simp only: score_of_output[OF o'])
  from log10_2dp_monotone i o o' le s s' show ?thesis by blast
qed

section \<open>The weighted score\<close>

lemma quantum_small: "quantum \<le> 1 / 2 ^ 60"
proof -
  have "(2::real) powi (- 1074) \<le> 2 powi (- 60)" by (intro power_int_increasing) simp_all
  then show ?thesis by (simp add: quantum_def power_int_minus field_simps)
qed

lemma ulp_le:
  assumes "x \<noteq> 0"
  shows "ulp x \<le> \<bar>x\<bar> / 2 ^ 52 + quantum"
proof -
  have x: "0 < \<bar>x\<bar>" using assms by simp
  have "(2::real) powi (expo \<bar>x\<bar> - 52) = 2 powi expo \<bar>x\<bar> * 2 powi (- 52)"
    using power_int_add[of "2::real" "expo \<bar>x\<bar>" "- 52"] by simp
  also have "\<dots> = 2 powi expo \<bar>x\<bar> / 2 ^ 52" by (simp add: power_int_minus field_simps)
  also have "\<dots> \<le> \<bar>x\<bar> / 2 ^ 52" using expo_lower[OF x] by (simp add: divide_right_mono)
  finally have a: "(2::real) powi (expo \<bar>x\<bar> - 52) \<le> \<bar>x\<bar> / 2 ^ 52" .
  show ?thesis
  proof (cases "- 1074 \<le> expo \<bar>x\<bar> - 52")
    case True
    then have "max (expo \<bar>x\<bar> - 52) (- 1074) = expo \<bar>x\<bar> - 52" by (rule max_absorb1)
    then have "ulp x = 2 powi (expo \<bar>x\<bar> - 52)" by (simp only: ulp_def)
    with a quantum_pos show ?thesis by simp
  next
    case False
    then have "max (expo \<bar>x\<bar> - 52) (- 1074) = - 1074" by (intro max_absorb2) simp
    then have "ulp x = quantum" by (simp only: ulp_def quantum_def)
    then show ?thesis by simp
  qed
qed

lemma fl_close:
  assumes "0 \<le> x" "x \<le> 128"
  shows "x - 1 / 2 ^ 45 \<le> fl x" and "fl x \<le> x + 1 / 2 ^ 45"
proof -
  have "\<bar>fl x - x\<bar> \<le> 1 / 2 ^ 45"
  proof (cases "x = 0")
    case True
    then show ?thesis by (simp add: fl_zero)
  next
    case False
    have "\<bar>fl x - x\<bar> \<le> ulp x / 2" by (rule fl_error)
    also have "\<dots> \<le> (\<bar>x\<bar> / 2 ^ 52 + quantum) / 2"
      using ulp_le[OF False] by simp
    also have "\<dots> \<le> (128 / 2 ^ 52 + 1 / 2 ^ 60) / 2"
      using assms quantum_small by (intro divide_right_mono add_mono) simp_all
    also have "\<dots> \<le> 1 / 2 ^ 45" by simp
    finally show ?thesis .
  qed
  then show "x - 1 / 2 ^ 45 \<le> fl x" and "fl x \<le> x + 1 / 2 ^ 45"
    by linarith+
qed

lemma weightedScore_close:
  assumes "0 \<le> stableProcess s" "stableProcess s \<le> 100"
    "0 \<le> lowExceptions s" "lowExceptions s \<le> 100"
    "0 \<le> dataQuality_f s" "dataQuality_f s \<le> 100"
    "0 \<le> systemAccess_f s" "systemAccess_f s \<le> 100"
    "0 \<le> lowComplianceRisk s" "lowComplianceRisk s \<le> 100"
    "0 \<le> volumePotential s" "volumePotential s \<le> 100"
  shows "\<bar>weightedScore s - exactScore s\<bar> \<le> 1 / 10 ^ 12"
proof -
  define a where "a = stableProcess s"
  define b where "b = lowExceptions s"
  define c where "c = dataQuality_f s"
  define d where "d = systemAccess_f s"
  define e where "e = lowComplianceRisk s"
  define f where "f = volumePotential s"
  define w2 :: real where "w2 = 3602879701896397 / 18014398509481984"
  define w15 :: real where "w15 = 5404319552844595 / 36028797018963968"
  define w1 :: real where "w1 = 3602879701896397 / 36028797018963968"
  note r = assms[folded a_def b_def c_def d_def e_def f_def]
  define p1 where "p1 = fl (a * w2)"
  define p2 where "p2 = fl (b * w2)"
  define p3 where "p3 = fl (c * w2)"
  define p4 where "p4 = fl (d * w15)"
  define p5 where "p5 = fl (e * w15)"
  define p6 where "p6 = fl (f * w1)"
  define s1 where "s1 = fl (p1 + p2)"
  define s2 where "s2 = fl (s1 + p3)"
  define s3 where "s3 = fl (s2 + p4)"
  define s4 where "s4 = fl (s3 + p5)"
  define s5 where "s5 = fl (s4 + p6)"
  have ws: "weightedScore s = s5"
    by (simp add: weightedScore_def WEIGHTS_eval fadd_def fmul_def s5_def s4_def s3_def s2_def
        s1_def p1_def p2_def p3_def p4_def p5_def p6_def a_def b_def c_def d_def e_def f_def
        w2_def w15_def w1_def)
  have es: "exactScore s = a / 5 + b / 5 + c / 5 + d * 3 / 20 + e * 3 / 20 + f / 10"
    by (simp add: exactScore_def WEIGHTS_decimal_def a_def b_def c_def d_def e_def f_def)
  have q1: "0 \<le> a * w2" "a * w2 \<le> 128" "a / 5 \<le> a * w2" "a * w2 \<le> a / 5 + 1 / 2 ^ 49"
    using r(1,2) by (simp_all add: w2_def)
  have q2: "0 \<le> b * w2" "b * w2 \<le> 128" "b / 5 \<le> b * w2" "b * w2 \<le> b / 5 + 1 / 2 ^ 49"
    using r(3,4) by (simp_all add: w2_def)
  have q3: "0 \<le> c * w2" "c * w2 \<le> 128" "c / 5 \<le> c * w2" "c * w2 \<le> c / 5 + 1 / 2 ^ 49"
    using r(5,6) by (simp_all add: w2_def)
  have q4: "0 \<le> d * w15" "d * w15 \<le> 128" "d * 3 / 20 - 1 / 2 ^ 49 \<le> d * w15" "d * w15 \<le> d * 3 / 20"
    using r(7,8) by (simp_all add: w15_def)
  have q5: "0 \<le> e * w15" "e * w15 \<le> 128" "e * 3 / 20 - 1 / 2 ^ 49 \<le> e * w15" "e * w15 \<le> e * 3 / 20"
    using r(9,10) by (simp_all add: w15_def)
  have q6: "0 \<le> f * w1" "f * w1 \<le> 128" "f / 10 \<le> f * w1" "f * w1 \<le> f / 10 + 1 / 2 ^ 49"
    using r(11,12) by (simp_all add: w1_def)
  have n: "0 \<le> p1" "0 \<le> p2" "0 \<le> p3" "0 \<le> p4" "0 \<le> p5" "0 \<le> p6"
    unfolding p1_def p2_def p3_def p4_def p5_def p6_def
    using q1(1) q2(1) q3(1) q4(1) q5(1) q6(1) by (simp_all add: fl_nonneg)
  have c1: "a * w2 - 1 / 2 ^ 45 \<le> p1" "p1 \<le> a * w2 + 1 / 2 ^ 45"
    unfolding p1_def using fl_close[OF q1(1,2)] by simp_all
  have c2: "b * w2 - 1 / 2 ^ 45 \<le> p2" "p2 \<le> b * w2 + 1 / 2 ^ 45"
    unfolding p2_def using fl_close[OF q2(1,2)] by simp_all
  have c3: "c * w2 - 1 / 2 ^ 45 \<le> p3" "p3 \<le> c * w2 + 1 / 2 ^ 45"
    unfolding p3_def using fl_close[OF q3(1,2)] by simp_all
  have c4: "d * w15 - 1 / 2 ^ 45 \<le> p4" "p4 \<le> d * w15 + 1 / 2 ^ 45"
    unfolding p4_def using fl_close[OF q4(1,2)] by simp_all
  have c5: "e * w15 - 1 / 2 ^ 45 \<le> p5" "p5 \<le> e * w15 + 1 / 2 ^ 45"
    unfolding p5_def using fl_close[OF q5(1,2)] by simp_all
  have c6: "f * w1 - 1 / 2 ^ 45 \<le> p6" "p6 \<le> f * w1 + 1 / 2 ^ 45"
    unfolding p6_def using fl_close[OF q6(1,2)] by simp_all
  have u: "p1 \<le> 21" "p2 \<le> 21" "p3 \<le> 21" "p4 \<le> 16" "p5 \<le> 16" "p6 \<le> 11"
    using c1(2) c2(2) c3(2) c4(2) c5(2) c6(2) q1(4) q2(4) q3(4) q4(4) q5(4) q6(4) r
    by simp_all
  have t1: "0 \<le> p1 + p2" "p1 + p2 \<le> 128" using n u by simp_all
  have d1: "p1 + p2 - 1 / 2 ^ 45 \<le> s1" "s1 \<le> p1 + p2 + 1 / 2 ^ 45" "0 \<le> s1"
    unfolding s1_def using fl_close[OF t1] t1(1) by (simp_all add: fl_nonneg)
  have t2: "0 \<le> s1 + p3" "s1 + p3 \<le> 128" using n u d1 by simp_all
  have d2: "s1 + p3 - 1 / 2 ^ 45 \<le> s2" "s2 \<le> s1 + p3 + 1 / 2 ^ 45" "0 \<le> s2"
    unfolding s2_def using fl_close[OF t2] t2(1) by (simp_all add: fl_nonneg)
  have t3: "0 \<le> s2 + p4" "s2 + p4 \<le> 128" using n u d1 d2 by simp_all
  have d3: "s2 + p4 - 1 / 2 ^ 45 \<le> s3" "s3 \<le> s2 + p4 + 1 / 2 ^ 45" "0 \<le> s3"
    unfolding s3_def using fl_close[OF t3] t3(1) by (simp_all add: fl_nonneg)
  have t4: "0 \<le> s3 + p5" "s3 + p5 \<le> 128" using n u d1 d2 d3 by simp_all
  have d4: "s3 + p5 - 1 / 2 ^ 45 \<le> s4" "s4 \<le> s3 + p5 + 1 / 2 ^ 45" "0 \<le> s4"
    unfolding s4_def using fl_close[OF t4] t4(1) by (simp_all add: fl_nonneg)
  have t5: "0 \<le> s4 + p6" "s4 + p6 \<le> 128" using n u d1 d2 d3 d4 by simp_all
  have d5: "s4 + p6 - 1 / 2 ^ 45 \<le> s5" "s5 \<le> s4 + p6 + 1 / 2 ^ 45"
    unfolding s5_def using fl_close[OF t5] by simp_all
  have "s5 - (a / 5 + b / 5 + c / 5 + d * 3 / 20 + e * 3 / 20 + f / 10) \<le> 1 / 10 ^ 12"
    using c1 c2 c3 c4 c5 c6 d1 d2 d3 d4 d5 q1(3,4) q2(3,4) q3(3,4) q4(3,4) q5(3,4) q6(3,4)
    by simp
  moreover have "- (1 / 10 ^ 12) \<le> s5 - (a / 5 + b / 5 + c / 5 + d * 3 / 20 + e * 3 / 20 + f / 10)"
    using c1 c2 c3 c4 c5 c6 d1 d2 d3 d4 d5 q1(3,4) q2(3,4) q3(3,4) q4(3,4) q5(3,4) q6(3,4)
    by simp
  ultimately show ?thesis unfolding ws es by linarith
qed

lemma fl_100: "fl 100 = 100"
  by (simp add: fl_eval)

lemma fsub_100_range:
  assumes "0 \<le> x" "x \<le> 100"
  shows "0 \<le> fsub 100 x" and "fsub 100 x \<le> 100"
proof -
  have "fl 0 \<le> fl (100 - x)" using assms by (intro fl_mono) simp
  then show "0 \<le> fsub 100 x" by (simp add: fsub_def fl_zero)
  have "fl (100 - x) \<le> fl 100" using assms by (intro fl_mono) simp
  then show "fsub 100 x \<le> 100" by (simp add: fsub_def fl_100)
qed

lemma floor_near:
  fixes x y :: real
  assumes "x \<le> y + 1"
  shows "\<lfloor>x\<rfloor> \<le> \<lfloor>y\<rfloor> + 1"
proof -
  have "\<lfloor>x\<rfloor> \<le> \<lfloor>y + of_int 1\<rfloor>" using assms by (intro floor_mono) simp
  also have "\<dots> = \<lfloor>y\<rfloor> + 1" by (rule floor_add_int[symmetric])
  finally show ?thesis .
qed

lemma exactScore_range:
  assumes "0 \<le> stableProcess s" "stableProcess s \<le> 100"
    "0 \<le> lowExceptions s" "lowExceptions s \<le> 100"
    "0 \<le> dataQuality_f s" "dataQuality_f s \<le> 100"
    "0 \<le> systemAccess_f s" "systemAccess_f s \<le> 100"
    "0 \<le> lowComplianceRisk s" "lowComplianceRisk s \<le> 100"
    "0 \<le> volumePotential s" "volumePotential s \<le> 95"
  shows "0 \<le> exactScore s" and "exactScore s \<le> 199 / 2"
  using assms by (simp_all add: exactScore_def WEIGHTS_decimal_def)

text \<open>
  C2. For every input record in the documented domain the readiness score is the weighted
  sum of the six subscores, rounded to the nearest integer, halves up, where the weighted
  sum is the one the source computes: in binary64 arithmetic, with the binary64 weights,
  each product rounded and the products added from left to right. That sum is within
  \<open>1 / 10 ^ 12\<close> of the exact weighted sum with the decimal weights, so the score differs
  from the exactly computed and rounded one by at most 1; it is an integer from 0 to 100.
\<close>

theorem score_rounds_weighted_sum:
  assumes "in_domain inputs"
  shows "\<exists>out. calculateReadiness log10 inputs = Inr out
     \<and> readinessScore out = of_int (round_half_up (weightedScore (subscoresOf log10 inputs)))
     \<and> \<bar>weightedScore (subscoresOf log10 inputs) - exactScore (subscoresOf log10 inputs)\<bar>
           \<le> 1 / 10 ^ 12
     \<and> \<bar>readinessScore out - of_int (round_half_up (exactScore (subscoresOf log10 inputs)))\<bar> \<le> 1
     \<and> readinessScore out \<in> \<int>
     \<and> 0 \<le> readinessScore out \<and> readinessScore out \<le> 100"
proof -
  let ?s = "subscoresOf log10 inputs"
  obtain out where o: "calculateReadiness log10 inputs = Inr out"
    using output_score_band[of log10 inputs] by blast
  have r: "readinessScore out = of_int (round_half_up (weightedScore ?s))"
    using score_of_output[OF o] by (simp add: Math_round_def round_half_up_def)
  have b: "0 \<le> stableProcess ?s" "stableProcess ?s \<le> 100"
    "0 \<le> lowExceptions ?s" "lowExceptions ?s \<le> 100"
    "0 \<le> dataQuality_f ?s" "dataQuality_f ?s \<le> 100"
    "0 \<le> systemAccess_f ?s" "systemAccess_f ?s \<le> 100"
    "0 \<le> lowComplianceRisk ?s" "lowComplianceRisk ?s \<le> 100"
    "0 \<le> volumePotential ?s" "volumePotential ?s \<le> 95"
    using assms volumeSubscore_range[of log10 "processVolume inputs"]
    by (simp_all add: in_domain_def subscoresOf_def fsub_100_range)
  from b(12) have v: "volumePotential ?s \<le> 100" by simp
  have c: "\<bar>weightedScore ?s - exactScore ?s\<bar> \<le> 1 / 10 ^ 12"
    using b(1-11) v by (rule weightedScore_close)
  have e: "0 \<le> exactScore ?s" "exactScore ?s \<le> 199 / 2"
    using b by (rule exactScore_range)+
  from c have c': "exactScore ?s - 1 / 10 ^ 12 \<le> weightedScore ?s"
    "weightedScore ?s \<le> exactScore ?s + 1 / 10 ^ 12"
    by linarith+
  have lo: "0 \<le> round_half_up (weightedScore ?s)"
    unfolding round_half_up_def using c'(1) e(1) by (simp add: le_floor_iff)
  have hi: "round_half_up (weightedScore ?s) \<le> 100"
    unfolding round_half_up_def using c'(2) e(2) by (simp add: floor_le_iff)
  have f1: "\<lfloor>weightedScore ?s + 1 / 2\<rfloor> \<le> \<lfloor>exactScore ?s + 1 / 2\<rfloor> + 1"
    using c'(2) by (intro floor_near) simp
  have f2: "\<lfloor>exactScore ?s + 1 / 2\<rfloor> \<le> \<lfloor>weightedScore ?s + 1 / 2\<rfloor> + 1"
    using c'(1) by (intro floor_near) simp
  from f1 f2 have "\<bar>round_half_up (weightedScore ?s) - round_half_up (exactScore ?s)\<bar> \<le> 1"
    unfolding round_half_up_def by linarith
  then have near: "\<bar>readinessScore out - of_int (round_half_up (exactScore ?s))\<bar> \<le> 1"
    unfolding r by (simp only: of_int_diff[symmetric] of_int_abs[symmetric]; simp)
  have "readinessScore out \<in> \<int>" unfolding r by simp
  moreover have "0 \<le> readinessScore out" "readinessScore out \<le> 100"
    unfolding r using lo hi by simp_all
  ultimately show ?thesis using o r c near by blast
qed

theorem score_rounds_weighted_sum_witness:
  "in_domain \<lparr> processVolume = 0, variance = 40, exceptionRate = 30, dataQuality = 60,
         systemAccess = 50, complianceSensitivity = 40 \<rparr>
   \<and> (\<exists>out. calculateReadiness log10_2dp
       \<lparr> processVolume = 0, variance = 40, exceptionRate = 30, dataQuality = 60,
         systemAccess = 50, complianceSensitivity = 40 \<rparr> = Inr out
     \<and> readinessScore out = 55
     \<and> round_half_up (exactScore (subscoresOf log10_2dp
       \<lparr> processVolume = 0, variance = 40, exceptionRate = 30, dataQuality = 60,
         systemAccess = 50, complianceSensitivity = 40 \<rparr>)) = 55)"
proof -
  let ?w = "\<lparr> processVolume = 0, variance = 40, exceptionRate = 30, dataQuality = 60,
         systemAccess = 50, complianceSensitivity = 40 \<rparr>"
  have d: "in_domain ?w" by (simp add: in_domain_def)
  obtain out where o: "calculateReadiness log10_2dp ?w = Inr out"
    and r: "readinessScore out = of_int (round_half_up (weightedScore (subscoresOf log10_2dp ?w)))"
    using score_rounds_weighted_sum[OF d, of log10_2dp] by blast
  have "round_half_up (weightedScore (subscoresOf log10_2dp ?w)) = 55"
    by (simp add: round_half_up_def score_eval)
  with r have "readinessScore out = 55" by simp
  moreover have "round_half_up (exactScore (subscoresOf log10_2dp ?w)) = 55"
    by (simp add: round_half_up_def exactScore_def WEIGHTS_decimal_def subscoresOf_def
        volumeSubscore_def fl_eval)
  ultimately show ?thesis using d o by blast
qed

text \<open>
  The claim read in exact arithmetic fails: on the record below the subscores are
  0, 0, 0, 1, 9 and 0, the exact weighted sum is \<open>1 * 0.15 + 9 * 0.15 = 1.5\<close>, which rounds
  half up to 2; the source computes \<^verbatim>\<open>0.15 + 1.3499999999999999 = 1.4999999999999998\<close> and
  returns the score 1.
\<close>

theorem score_rounds_weighted_sum_counterexample:
  "in_domain \<lparr> processVolume = 0, variance = 100, exceptionRate = 100, dataQuality = 0,
         systemAccess = 1, complianceSensitivity = 91 \<rparr>
   \<and> map_sum id readinessScore (calculateReadiness log10_2dp
       \<lparr> processVolume = 0, variance = 100, exceptionRate = 100, dataQuality = 0,
         systemAccess = 1, complianceSensitivity = 91 \<rparr>) = Inr 1
   \<and> round_half_up (exactScore (subscoresOf log10_2dp
       \<lparr> processVolume = 0, variance = 100, exceptionRate = 100, dataQuality = 0,
         systemAccess = 1, complianceSensitivity = 91 \<rparr>)) = 2
   \<and> weightedScore (subscoresOf log10_2dp
       \<lparr> processVolume = 0, variance = 100, exceptionRate = 100, dataQuality = 0,
         systemAccess = 1, complianceSensitivity = 91 \<rparr>) = 3 / 2 - 1 / 2 ^ 52"
proof -
  let ?w = "\<lparr> processVolume = 0, variance = 100, exceptionRate = 100, dataQuality = 0,
         systemAccess = 1, complianceSensitivity = 91 \<rparr>"
  have d: "in_domain ?w" by (simp add: in_domain_def)
  obtain out where o: "calculateReadiness log10_2dp ?w = Inr out"
    using output_score_band[of log10_2dp ?w] by blast
  have w: "weightedScore (subscoresOf log10_2dp ?w) = 3 / 2 - 1 / 2 ^ 52"
    by (simp add: score_eval)
  have "Math_round (weightedScore (subscoresOf log10_2dp ?w)) = 1"
    unfolding w by (simp add: Math_round_def)
  with score_of_output[OF o] have "readinessScore out = 1" by simp
  with o have m: "map_sum id readinessScore (calculateReadiness log10_2dp ?w) = Inr 1" by simp
  have e: "round_half_up (exactScore (subscoresOf log10_2dp ?w)) = 2"
    by (simp add: round_half_up_def exactScore_def WEIGHTS_decimal_def subscoresOf_def
        volumeSubscore_def fl_eval)
  from d m e w show ?thesis by blast
qed

end
